theory Spec2Isabelle
  imports Complex_Main "HOL-Library.Sublist" "HOL-Library.List_Lexorder"
begin

section \<open>Text\<close>

text \<open>
  A Python \<^verbatim>\<open>str\<close> is a sequence of Unicode code points, so text is a list of
  code points. \<open>lit\<close> embeds an ASCII literal.
\<close>

type_synonym pystr = "nat list"

definition lit :: "string \<Rightarrow> pystr" where
  "lit s = map of_char s"

text \<open>
  The character classes of \<^verbatim>\<open>re\<close> on \<^verbatim>\<open>str\<close> patterns are the Unicode ones
  (Unicode 14.0, CPython 3.11): \<^verbatim>\<open>\d\<close> is the category Nd, which is 66 runs of ten
  code points valued 0 to 9, listed by their first code point; \<^verbatim>\<open>\s\<close> is the set of
  \<^verbatim>\<open>str.isspace\<close>, which is also what \<^verbatim>\<open>str.strip()\<close> removes.
\<close>

definition nd_starts :: "nat list" where
  "nd_starts =
     [48, 1632, 1776, 1984, 2406, 2534, 2662, 2790, 2918, 3046, 3174, 3302, 3430, 3558,
      3664, 3792, 3872, 4160, 4240, 6112, 6160, 6470, 6608, 6784, 6800, 6992, 7088, 7232,
      7248, 42528, 43216, 43264, 43472, 43504, 43600, 44016, 65296, 66720, 68912, 69734,
      69872, 69942, 70096, 70384, 70736, 70864, 71248, 71360, 71472, 71904, 72016, 72784,
      73040, 73120, 92768, 92864, 93008, 120782, 120792, 120802, 120812, 120822, 123200,
      123632, 125264, 130032]"

definition is_digit :: "nat \<Rightarrow> bool" where
  "is_digit c = list_ex (\<lambda>s. s \<le> c \<and> c < s + 10) nd_starts"

definition digit_value :: "nat \<Rightarrow> nat" where
  "digit_value c =
     (case find (\<lambda>s. s \<le> c \<and> c < s + 10) nd_starts of Some s \<Rightarrow> c - s | None \<Rightarrow> 0)"

definition is_space :: "nat \<Rightarrow> bool" where
  "is_space c =
     (c \<in> set [9, 10, 11, 12, 13, 28, 29, 30, 31, 32, 133, 160, 5760, 8192, 8193, 8194,
               8195, 8196, 8197, 8198, 8199, 8200, 8201, 8202, 8232, 8233, 8239, 8287,
               12288])"

text \<open>\<^verbatim>\<open>s.strip()\<close> and \<^verbatim>\<open>s.split(sep)\<close> for a one-character separator.\<close>

definition strip :: "pystr \<Rightarrow> pystr" where
  "strip s = rev (dropWhile is_space (rev (dropWhile is_space s)))"

fun split :: "nat \<Rightarrow> pystr \<Rightarrow> pystr list" where
  "split sep [] = [[]]"
| "split sep (c # cs) =
     (if c = sep then [] # split sep cs
      else (case split sep cs of p # ps \<Rightarrow> (c # p) # ps | [] \<Rightarrow> [[c]]))"

section \<open>Errors\<close>

text \<open>
  The exceptions the modelled code can raise, by class. \<^verbatim>\<open>ValueError\<close> carries
  which of its three sources raised it: the parser's own \<^verbatim>\<open>raise\<close>, and the two ways
  \<^verbatim>\<open>int()\<close> rejects a string.
\<close>

datatype value_error = NoStreakDay | InvalidLiteral | DigitLimit

datatype error =
    ValueError value_error
  | OverflowError
  | UnicodeEncodeError
  | TypeError
  | DatabaseError

text \<open>
  \<^verbatim>\<open>int(s)\<close> in base ten, as CPython 3.11 reads a string: the whitespace around the
  number is skipped (the set of \<^verbatim>\<open>str.isspace\<close> without the four separators U+001C to
  U+001F), one sign is allowed, and the number is the run of decimal digits of Unicode
  and underscores that follows. An underscore at either end of the run or two in a row
  are refused; then more than 4300 digits are refused (the default of
  \<^verbatim>\<open>sys.set_int_max_str_digits\<close>); then a run without a digit and anything but
  whitespace after the run are refused.
\<close>

definition int_max_str_digits :: nat where
  "int_max_str_digits = 4300"

definition is_int_space :: "nat \<Rightarrow> bool" where
  "is_int_space c = (is_space c \<and> \<not> (28 \<le> c \<and> c \<le> 31))"

fun double_underscore :: "pystr \<Rightarrow> bool" where
  "double_underscore [] = False"
| "double_underscore [a] = False"
| "double_underscore (a # b # cs) = ((a = 95 \<and> b = 95) \<or> double_underscore (b # cs))"

definition digits_value :: "pystr \<Rightarrow> nat" where
  "digits_value ds = foldl (\<lambda>acc c. 10 * acc + digit_value c) 0 ds"

definition py_int :: "pystr \<Rightarrow> error + int" where
  "py_int s =
     (let t = dropWhile is_int_space s;
          neg = (t \<noteq> [] \<and> hd t = 45);
          body = (if t \<noteq> [] \<and> (hd t = 43 \<or> hd t = 45) then tl t else t);
          run = takeWhile (\<lambda>c. is_digit c \<or> c = 95) body;
          rest = dropWhile (\<lambda>c. is_digit c \<or> c = 95) body;
          digits = filter is_digit run
      in if (run \<noteq> [] \<and> (hd run = 95 \<or> last run = 95)) \<or> double_underscore run
         then Inl (ValueError InvalidLiteral)
         else if int_max_str_digits < length digits
         then Inl (ValueError DigitLimit)
         else if digits = [] \<or> dropWhile is_int_space rest \<noteq> []
         then Inl (ValueError InvalidLiteral)
         else Inr (if neg then - int (digits_value digits) else int (digits_value digits)))"

section \<open>The message parser\<close>

text \<open>
  \<^verbatim>\<open>parse_message\<close> of \<^verbatim>\<open>src/core/wordle_sqlite_tracker.py\<close>. Each regular expression
  is written as the matcher it denotes.

  \<^verbatim>\<open>re.search(r'(\d+) day streak', message)\<close>: \<open>match_streak\<close> is the pattern
  anchored at the start of its argument and returns group 1. The greedy \<^verbatim>\<open>\d+\<close> takes
  the whole run of digits; giving a digit back cannot help, since the next pattern
  character is a blank. \<open>search_streak\<close> tries every start from the left.
\<close>

definition match_streak :: "pystr \<Rightarrow> pystr option" where
  "match_streak s =
     (let ds = takeWhile is_digit s
      in if ds \<noteq> [] \<and> prefix (lit '' day streak'') (dropWhile is_digit s)
         then Some ds else None)"

fun search_streak :: "pystr \<Rightarrow> pystr option" where
  "search_streak [] = None"
| "search_streak (c # cs) =
     (case match_streak (c # cs) of Some ds \<Rightarrow> Some ds | None \<Rightarrow> search_streak cs)"

text \<open>
  The score pattern, as the source file has it:
  \<^verbatim>\<open>(CROWN\s*)?([1-6X])/6:\s*([^CROWN]*?)(?=(?:[1-6X]/6:|$))\<close>
  where \<^verbatim>\<open>CROWN\<close> stands for the four code points U+F8FF U+00FC U+00EB U+00EB that
  the file holds at that place (the bytes of the crown emoji U+1F451 read as Mac Roman),
  so the negated class excludes the three code points U+F8FF, U+00FC and U+00EB.
\<close>

definition crown :: pystr where
  "crown = [63743, 252, 235, 235]"

definition is_score :: "nat \<Rightarrow> bool" where
  "is_score c = ((49 \<le> c \<and> c \<le> 54) \<or> c = 88)"

definition score_marker :: "pystr \<Rightarrow> bool" where
  "score_marker s =
     (case s of [] \<Rightarrow> False | c # s1 \<Rightarrow> is_score c \<and> prefix (lit ''/6:'') s1)"

text \<open>
  \<^verbatim>\<open>$\<close> without \<^verbatim>\<open>re.MULTILINE\<close> holds at the end of the text and before a newline
  that ends the text.
\<close>

definition at_end :: "pystr \<Rightarrow> bool" where
  "at_end s = (s = [] \<or> s = [10])"

text \<open>
  The lazy group 3 with its lookahead: the shortest run of admitted characters after
  which a score marker or the end follows. The result is the group and the text left.
\<close>

fun lazy_usernames :: "pystr \<Rightarrow> (pystr \<times> pystr) option" where
  "lazy_usernames [] = Some ([], [])"
| "lazy_usernames (c # cs) =
     (if score_marker (c # cs) \<or> at_end (c # cs) then Some ([], c # cs)
      else if c \<in> set crown then None
      else (case lazy_usernames cs of
              None \<Rightarrow> None
            | Some (g, rest) \<Rightarrow> Some (c # g, rest)))"

text \<open>
  The whole score pattern anchored at the start of its argument: the three groups and
  the text left after the match. An optional group that takes no part is the empty
  string, as \<^verbatim>\<open>re.findall\<close> reports it. The greedy \<^verbatim>\<open>\s*\<close> takes every blank: a
  blank given back would have to start group 3, which then scans the same text.
\<close>

definition match_score :: "pystr \<Rightarrow> (pystr \<times> pystr \<times> pystr \<times> pystr) option" where
  "match_score s =
     (let g1 = (if prefix crown s then crown @ takeWhile is_space (drop 4 s) else []);
          s1 = (if prefix crown s then dropWhile is_space (drop 4 s) else s)
      in case s1 of
           [] \<Rightarrow> None
         | c # s2 \<Rightarrow>
             if is_score c \<and> prefix (lit ''/6:'') s2
             then (case lazy_usernames (dropWhile is_space (drop 3 s2)) of
                     None \<Rightarrow> None
                   | Some (g3, rest) \<Rightarrow> Some (g1, [c], g3, rest))
             else None)"

lemma lazy_usernames_length:
  "lazy_usernames s = Some (g, rest) \<Longrightarrow> length rest \<le> length s"
  by (induction s arbitrary: g rest) (auto split: if_splits option.splits)

lemma match_score_length:
  assumes "match_score s = Some (g1, g2, g3, rest)"
  shows "length rest < length s"
proof -
  define s1 where "s1 = (if prefix crown s then dropWhile is_space (drop 4 s) else s)"
  have s1: "length s1 \<le> length s"
    unfolding s1_def using length_dropWhile_le [of is_space "drop 4 s"] by auto
  from assms obtain c s2 where c: "s1 = c # s2"
    and l: "lazy_usernames (dropWhile is_space (drop 3 s2)) = Some (g3, rest)"
    unfolding match_score_def s1_def [symmetric] Let_def
    by (auto split: list.splits if_splits option.splits)
  have "length rest \<le> length (dropWhile is_space (drop 3 s2))"
    using lazy_usernames_length [OF l] .
  also have "\<dots> \<le> length s2"
    using length_dropWhile_le [of is_space "drop 3 s2"] by simp
  finally show ?thesis using c s1 by simp
qed

text \<open>
  \<^verbatim>\<open>re.findall\<close>: the matches from left to right, each search starting where the
  match before it ended.
\<close>

function findall_score :: "pystr \<Rightarrow> (pystr \<times> pystr \<times> pystr) list" where
  "findall_score [] = []"
| "findall_score (c # cs) =
     (case match_score (c # cs) of
        None \<Rightarrow> findall_score cs
      | Some (g1, g2, g3, rest) \<Rightarrow> (g1, g2, g3) # findall_score rest)"
  by pat_completeness auto
termination
  by (relation "measure length") (auto dest: match_score_length)

text \<open>
  A user name inside a block: \<^verbatim>\<open>re.match(r'([^@]*?)(?=@|\d/6:|[A-Z]/6:|$)', part)\<close>.
  \<open>user_stop\<close> is the lookahead; the match always exists, at the end of the part at
  the latest.
\<close>

definition user_stop :: "pystr \<Rightarrow> bool" where
  "user_stop s =
     (case s of
        [] \<Rightarrow> True
      | c # s1 \<Rightarrow>
          c = 64 \<or> ((is_digit c \<or> (65 \<le> c \<and> c \<le> 90)) \<and> prefix (lit ''/6:'') s1)
          \<or> s = [10])"

fun lazy_username :: "pystr \<Rightarrow> pystr option" where
  "lazy_username [] = Some []"
| "lazy_username (c # cs) =
     (if user_stop (c # cs) then Some []
      else if c = 64 then None
      else map_option ((#) c) (lazy_username cs))"

text \<open>
  \<^verbatim>\<open>re.sub(r'[,;.!?]+$', '', s)\<close>: the run of punctuation that reaches the end of
  the text, or the newline that ends it, is removed.
\<close>

definition is_punct :: "nat \<Rightarrow> bool" where
  "is_punct c = (c \<in> set (lit '',;.!?''))"

definition rstrip_punct :: "pystr \<Rightarrow> pystr" where
  "rstrip_punct s = rev (dropWhile is_punct (rev s))"

definition sub_trailing_punct :: "pystr \<Rightarrow> pystr" where
  "sub_trailing_punct s =
     (if s \<noteq> [] \<and> last s = 10 then rstrip_punct (butlast s) @ [10] else rstrip_punct s)"

record parsed_result =
  p_username :: pystr
  p_score :: pystr
  p_is_winner :: bool

record parsed_streak =
  p_day :: int
  p_results :: "parsed_result list"

text \<open>The body of the inner loop: the cleaned user name of one part, if one survives.\<close>

definition clean_username :: "pystr \<Rightarrow> pystr option" where
  "clean_username part =
     (case lazy_username part of
        None \<Rightarrow> None
      | Some g \<Rightarrow>
          (let raw_username = strip g
           in if raw_username = [] then None
              else (let clean_user = strip (sub_trailing_punct raw_username)
                    in if clean_user \<noteq> [] \<and> 0 < length clean_user
                       then Some clean_user else None)))"

text \<open>The body of the outer loop: the results of one match of the score pattern.\<close>

definition block_results :: "pystr \<times> pystr \<times> pystr \<Rightarrow> parsed_result list" where
  "block_results m =
     (case m of (crown_g, score, usernames) \<Rightarrow>
        map (\<lambda>u. \<lparr>p_username = u, p_score = score,
                   p_is_winner = (if crown_g \<noteq> [] then strip crown_g \<noteq> [] else False)\<rparr>)
          (List.map_filter clean_username (tl (split 64 usernames))))"

definition parse_message :: "pystr \<Rightarrow> error + parsed_streak" where
  "parse_message message =
     (case search_streak message of
        None \<Rightarrow> Inl (ValueError NoStreakDay)
      | Some ds \<Rightarrow>
          (case py_int ds of
             Inl e \<Rightarrow> Inl e
           | Inr streak_day \<Rightarrow>
               Inr \<lparr>p_day = streak_day,
                    p_results = concat (map block_results (findall_score message))\<rparr>))"

section \<open>The store\<close>

text \<open>
  The three tables of \<^verbatim>\<open>init_database\<close>, a row as a record of its columns. A table is
  the list of its rows in rowid order. Every \<^verbatim>\<open>id\<close> is
  \<^verbatim>\<open>INTEGER PRIMARY KEY AUTOINCREMENT\<close>, so the store also holds, per table, the
  largest rowid handed out so far (the table \<^verbatim>\<open>sqlite_sequence\<close>). Timestamps are
  readings of the clock, taken as natural numbers.
\<close>

type_synonym timestamp = nat

record user_row =
  u_id :: nat
  username :: pystr
  first_seen :: timestamp

record streak_row =
  s_id :: nat
  day :: int
  imported_at :: timestamp

record result_row =
  r_id :: nat
  streak_day :: int
  user_id :: nat
  score :: pystr
  is_winner :: bool

record database =
  users :: "user_row list"
  streaks :: "streak_row list"
  results :: "result_row list"
  users_seq :: nat
  streaks_seq :: nat
  results_seq :: nat

text \<open>
  An insert takes a rowid one above every rowid the table has or ever had, and records
  it; SQLite does so before it looks at the conflict clause, so an ignored insert moves
  the counter too. (The counter's bound, the largest 64-bit integer, where SQLite reports a full table,
  is not modelled.)
\<close>

definition new_rowid :: "nat \<Rightarrow> nat list \<Rightarrow> nat" where
  "new_rowid seq ids = Suc (fold max ids seq)"

text \<open>\<^verbatim>\<open>INSERT OR IGNORE INTO streaks (day) VALUES (?)\<close>, with \<^verbatim>\<open>day UNIQUE\<close>.\<close>

definition insert_or_ignore_streak :: "timestamp \<Rightarrow> int \<Rightarrow> database \<Rightarrow> database" where
  "insert_or_ignore_streak now d db =
     (let i = new_rowid (streaks_seq db) (map s_id (streaks db));
          db1 = db\<lparr>streaks_seq := i\<rparr>
      in if list_ex (\<lambda>s. day s = d) (streaks db) then db1
         else db1\<lparr>streaks := streaks db @ [\<lparr>s_id = i, day = d, imported_at = now\<rparr>]\<rparr>)"

text \<open>\<^verbatim>\<open>INSERT OR IGNORE INTO users (username) VALUES (?)\<close>, with \<^verbatim>\<open>username UNIQUE\<close>.\<close>

definition insert_or_ignore_user :: "timestamp \<Rightarrow> pystr \<Rightarrow> database \<Rightarrow> database" where
  "insert_or_ignore_user now name db =
     (let i = new_rowid (users_seq db) (map u_id (users db));
          db1 = db\<lparr>users_seq := i\<rparr>
      in if list_ex (\<lambda>u. username u = name) (users db) then db1
         else db1\<lparr>users := users db @ [\<lparr>u_id = i, username = name, first_seen = now\<rparr>]\<rparr>)"

text \<open>\<^verbatim>\<open>SELECT id FROM users WHERE username = ?\<close> and \<^verbatim>\<open>fetchone()\<close>.\<close>

definition select_user_id :: "pystr \<Rightarrow> database \<Rightarrow> nat option" where
  "select_user_id name db = map_option u_id (find (\<lambda>u. username u = name) (users db))"

text \<open>
  \<^verbatim>\<open>INSERT OR REPLACE INTO results (streak_day, user_id, score, is_winner)\<close>, with
  \<^verbatim>\<open>UNIQUE(streak_day, user_id)\<close>: the rows in conflict are deleted and the new row
  is inserted.
\<close>

definition insert_or_replace_result ::
  "int \<Rightarrow> nat \<Rightarrow> pystr \<Rightarrow> bool \<Rightarrow> database \<Rightarrow> database" where
  "insert_or_replace_result d uid sc w db =
     (let i = new_rowid (results_seq db) (map r_id (results db))
      in db\<lparr>results_seq := i,
            results := filter (\<lambda>r. \<not> (streak_day r = d \<and> user_id r = uid)) (results db)
                       @ [\<lparr>r_id = i, streak_day = d, user_id = uid, score = sc, is_winner = w\<rparr>]\<rparr>)"

text \<open>\<^verbatim>\<open>SELECT COUNT(*) FROM results WHERE streak_day = ?\<close>.\<close>

definition count_results :: "int \<Rightarrow> database \<Rightarrow> nat" where
  "count_results d db = length (filter (\<lambda>r. streak_day r = d) (results db))"

section \<open>Connections and transactions\<close>

text \<open>
  A connection of the \<^verbatim>\<open>sqlite3\<close> module in its default mode: \<open>db_file\<close> is what the
  database file durably holds, \<open>txn\<close> the working copy of the open transaction, if
  one is open, and \<open>executed\<close> counts the statements run on the connection. A data
  modifying statement opens a transaction when none is open; \<open>commit\<close> makes the
  working copy durable; \<open>rollback\<close> and \<open>close\<close> drop it.

  A storage fault is an argument of the model: \<open>fault k\<close> says that the statement
  numbered \<open>k\<close> on the connection fails, and the module then raises an
  \<^verbatim>\<open>sqlite3.Error\<close>, here \<open>DatabaseError\<close>.
\<close>

record connection =
  db_file :: database
  txn :: "database option"
  executed :: nat

definition connect :: "database \<Rightarrow> connection" where
  "connect db = \<lparr>db_file = db, txn = None, executed = 0\<rparr>"

definition view :: "connection \<Rightarrow> database" where
  "view c = (case txn c of None \<Rightarrow> db_file c | Some w \<Rightarrow> w)"

definition execute_write ::
  "(nat \<Rightarrow> bool) \<Rightarrow> (database \<Rightarrow> database) \<Rightarrow> connection \<Rightarrow> (error + unit) \<times> connection" where
  "execute_write fault stmt c =
     (if fault (executed c)
      then (Inl DatabaseError, c\<lparr>txn := Some (view c), executed := Suc (executed c)\<rparr>)
      else (Inr (), c\<lparr>txn := Some (stmt (view c)), executed := Suc (executed c)\<rparr>))"

definition execute_query ::
  "(nat \<Rightarrow> bool) \<Rightarrow> (database \<Rightarrow> 'a) \<Rightarrow> connection \<Rightarrow> (error + 'a) \<times> connection" where
  "execute_query fault q c =
     (if fault (executed c) then (Inl DatabaseError, c\<lparr>executed := Suc (executed c)\<rparr>)
      else (Inr (q (view c)), c\<lparr>executed := Suc (executed c)\<rparr>))"

definition commit :: "(nat \<Rightarrow> bool) \<Rightarrow> connection \<Rightarrow> (error + unit) \<times> connection" where
  "commit fault c =
     (if fault (executed c) then (Inl DatabaseError, c\<lparr>executed := Suc (executed c)\<rparr>)
      else (Inr (), c\<lparr>db_file := view c, txn := None, executed := Suc (executed c)\<rparr>))"

definition rollback :: "(nat \<Rightarrow> bool) \<Rightarrow> connection \<Rightarrow> (error + unit) \<times> connection" where
  "rollback fault c =
     (if fault (executed c) then (Inl DatabaseError, c\<lparr>executed := Suc (executed c)\<rparr>)
      else (Inr (), c\<lparr>txn := None, executed := Suc (executed c)\<rparr>))"

definition close :: "connection \<Rightarrow> database" where
  "close c = db_file c"

text \<open>
  An \<^verbatim>\<open>INTEGER\<close> of SQLite has 64 bits: binding a Python integer outside that range
  raises \<^verbatim>\<open>OverflowError\<close>.
\<close>

definition bindable :: "int \<Rightarrow> bool" where
  "bindable i = (- (2 ^ 63) \<le> i \<and> i < 2 ^ 63)"

text \<open>
  A \<^verbatim>\<open>str\<close> is bound as UTF-8, which has no encoding for a lone surrogate (U+D800 to
  U+DFFF): binding such a string raises \<^verbatim>\<open>UnicodeEncodeError\<close>.
\<close>

definition encodable :: "pystr \<Rightarrow> bool" where
  "encodable s = list_all (\<lambda>c. \<not> (55296 \<le> c \<and> c \<le> 57343)) s"

text \<open>
  A data modifying statement with a parameter that cannot be bound: the module has
  opened the transaction, the statement does not run, and the exception is raised.
\<close>

definition bind_error :: "error \<Rightarrow> connection \<Rightarrow> (error + 'a) \<times> connection" where
  "bind_error e c = (Inl e, c\<lparr>txn := Some (view c), executed := Suc (executed c)\<rparr>)"

section \<open>Ingestion\<close>

text \<open>
  \<^verbatim>\<open>add_user\<close> and \<^verbatim>\<open>add_streak_data\<close> of \<^verbatim>\<open>src/core/wordle_sqlite_tracker.py\<close>.
  Every function returns its outcome (\<open>Inl\<close> the exception raised) with the connection
  as it leaves it. \<^verbatim>\<open>fetchone()[0]\<close> on no row is a \<^verbatim>\<open>TypeError\<close>.
\<close>

definition add_user ::
  "(nat \<Rightarrow> bool) \<Rightarrow> timestamp \<Rightarrow> connection \<Rightarrow> pystr \<Rightarrow> (error + nat) \<times> connection" where
  "add_user fault now conn name =
     (case (if encodable name
            then execute_write fault (insert_or_ignore_user now name) conn
            else bind_error UnicodeEncodeError conn) of
        (Inl e, c1) \<Rightarrow> (Inl e, c1)
      | (Inr _, c1) \<Rightarrow>
          (case execute_query fault (select_user_id name) c1 of
             (Inl e, c2) \<Rightarrow> (Inl e, c2)
           | (Inr None, c2) \<Rightarrow> (Inl TypeError, c2)
           | (Inr (Some uid), c2) \<Rightarrow> (Inr uid, c2)))"

text \<open>The loop \<^verbatim>\<open>for result in parsed_data["results"]\<close>.\<close>

fun add_results ::
  "(nat \<Rightarrow> bool) \<Rightarrow> timestamp \<Rightarrow> int \<Rightarrow> parsed_result list \<Rightarrow> connection
     \<Rightarrow> (error + unit) \<times> connection" where
  "add_results fault now d [] conn = (Inr (), conn)"
| "add_results fault now d (r # rs) conn =
     (case add_user fault now conn (p_username r) of
        (Inl e, c1) \<Rightarrow> (Inl e, c1)
      | (Inr uid, c1) \<Rightarrow>
          (case (if encodable (p_score r)
                 then execute_write fault
                        (insert_or_replace_result d uid (p_score r) (p_is_winner r)) c1
                 else bind_error UnicodeEncodeError c1) of
             (Inl e, c2) \<Rightarrow> (Inl e, c2)
           | (Inr _, c2) \<Rightarrow> add_results fault now d rs c2))"

record summary =
  s_day :: int
  results_added :: nat
  users_in_day :: "pystr list"

text \<open>The body of the \<^verbatim>\<open>try\<close> block.\<close>

definition add_streak_try ::
  "(nat \<Rightarrow> bool) \<Rightarrow> timestamp \<Rightarrow> parsed_streak \<Rightarrow> connection
     \<Rightarrow> (error + summary) \<times> connection" where
  "add_streak_try fault now parsed_data conn =
     (let streak_day = p_day parsed_data
      in case (if bindable streak_day
               then execute_write fault (insert_or_ignore_streak now streak_day) conn
               else bind_error OverflowError conn) of
           (Inl e, c1) \<Rightarrow> (Inl e, c1)
         | (Inr _, c1) \<Rightarrow>
             (case add_results fault now streak_day (p_results parsed_data) c1 of
                (Inl e, c2) \<Rightarrow> (Inl e, c2)
              | (Inr _, c2) \<Rightarrow>
                  (case commit fault c2 of
                     (Inl e, c3) \<Rightarrow> (Inl e, c3)
                   | (Inr _, c3) \<Rightarrow>
                       (case execute_query fault (count_results streak_day) c3 of
                          (Inl e, c4) \<Rightarrow> (Inl e, c4)
                        | (Inr results_count, c4) \<Rightarrow>
                            (Inr \<lparr>s_day = streak_day, results_added = results_count,
                                  users_in_day = map p_username (p_results parsed_data)\<rparr>,
                             c4)))))"

text \<open>
  \<^verbatim>\<open>add_streak_data\<close>: the message is parsed before the connection is opened; an
  exception of the \<^verbatim>\<open>try\<close> block is answered by \<^verbatim>\<open>conn.rollback()\<close> and raised
  again (an exception of the rollback takes its place); \<^verbatim>\<open>finally\<close> closes the
  connection. The result is the outcome and the database file as the call leaves it.
\<close>

definition add_streak_data ::
  "(nat \<Rightarrow> bool) \<Rightarrow> timestamp \<Rightarrow> pystr \<Rightarrow> database \<Rightarrow> (error + summary) \<times> database" where
  "add_streak_data fault now message db =
     (case parse_message message of
        Inl e \<Rightarrow> (Inl e, db)
      | Inr parsed_data \<Rightarrow>
          (case add_streak_try fault now parsed_data (connect db) of
             (Inr s, c) \<Rightarrow> (Inr s, close c)
           | (Inl e, c) \<Rightarrow>
               (case rollback fault c of
                  (Inl e', c') \<Rightarrow> (Inl e', close c')
                | (Inr _, c') \<Rightarrow> (Inl e, close c'))))"

section \<open>Deleting a day\<close>

text \<open>
  \<^verbatim>\<open>get_day_details\<close> and \<^verbatim>\<open>delete_day\<close> of \<^verbatim>\<open>src/core/database_manager.py\<close>.
  What the functions print is not modelled.
\<close>

record day_details =
  dd_day :: int
  dd_imported_at :: timestamp
  participants :: nat
  dd_results :: "(pystr \<times> pystr \<times> bool) list"

text \<open>\<^verbatim>\<open>SELECT day, imported_at FROM streaks WHERE day = ?\<close> and \<^verbatim>\<open>fetchone()\<close>.\<close>

definition select_streak :: "int \<Rightarrow> database \<Rightarrow> streak_row option" where
  "select_streak d db = find (\<lambda>s. day s = d) (streaks db)"

text \<open>
  \<^verbatim>\<open>SELECT u.username, r.score, r.is_winner FROM results r JOIN users u ON r.user_id = u.id
  WHERE r.streak_day = ? ORDER BY u.username\<close>.
\<close>

definition select_day_results :: "int \<Rightarrow> database \<Rightarrow> (pystr \<times> pystr \<times> bool) list" where
  "select_day_results d db =
     sort_key fst
       (concat (map (\<lambda>r. map (\<lambda>u. (username u, score r, is_winner r))
                            (filter (\<lambda>u. u_id u = user_id r) (users db)))
                  (filter (\<lambda>r. streak_day r = d) (results db))))"

definition get_day_details ::
  "(nat \<Rightarrow> bool) \<Rightarrow> int \<Rightarrow> database \<Rightarrow> error + day_details option" where
  "get_day_details fault d db =
     (if \<not> bindable d then Inl OverflowError
      else case execute_query fault (select_streak d) (connect db) of
             (Inl e, c1) \<Rightarrow> Inl e
           | (Inr None, c1) \<Rightarrow> Inr None
           | (Inr (Some streak_data), c1) \<Rightarrow>
               (case execute_query fault (select_day_results d) c1 of
                  (Inl e, c2) \<Rightarrow> Inl e
                | (Inr rows, c2) \<Rightarrow>
                    Inr (Some \<lparr>dd_day = day streak_data,
                               dd_imported_at = imported_at streak_data,
                               participants = length rows, dd_results = rows\<rparr>)))"

text \<open>
  The statements \<^verbatim>\<open>BEGIN TRANSACTION\<close>, \<^verbatim>\<open>COMMIT\<close> and \<^verbatim>\<open>ROLLBACK\<close> run through
  \<^verbatim>\<open>cursor.execute\<close>: SQLite refuses a \<^verbatim>\<open>BEGIN\<close> inside a transaction, and a
  \<^verbatim>\<open>COMMIT\<close> or \<^verbatim>\<open>ROLLBACK\<close> outside one.
\<close>

definition execute_begin :: "(nat \<Rightarrow> bool) \<Rightarrow> connection \<Rightarrow> (error + unit) \<times> connection" where
  "execute_begin fault c =
     (if fault (executed c) \<or> txn c \<noteq> None
      then (Inl DatabaseError, c\<lparr>executed := Suc (executed c)\<rparr>)
      else (Inr (), c\<lparr>txn := Some (db_file c), executed := Suc (executed c)\<rparr>))"

definition execute_commit :: "(nat \<Rightarrow> bool) \<Rightarrow> connection \<Rightarrow> (error + unit) \<times> connection" where
  "execute_commit fault c =
     (if txn c = None then (Inl DatabaseError, c\<lparr>executed := Suc (executed c)\<rparr>)
      else commit fault c)"

definition execute_rollback :: "(nat \<Rightarrow> bool) \<Rightarrow> connection \<Rightarrow> (error + unit) \<times> connection" where
  "execute_rollback fault c =
     (if txn c = None then (Inl DatabaseError, c\<lparr>executed := Suc (executed c)\<rparr>)
      else rollback fault c)"

text \<open>
  \<^verbatim>\<open>DELETE FROM results WHERE streak_day = ?\<close> and \<^verbatim>\<open>DELETE FROM streaks WHERE day = ?\<close>.
\<close>

definition delete_results :: "int \<Rightarrow> database \<Rightarrow> database" where
  "delete_results d db = db\<lparr>results := filter (\<lambda>r. streak_day r \<noteq> d) (results db)\<rparr>"

definition delete_streak :: "int \<Rightarrow> database \<Rightarrow> database" where
  "delete_streak d db = db\<lparr>streaks := filter (\<lambda>s. day s \<noteq> d) (streaks db)\<rparr>"

text \<open>The \<^verbatim>\<open>try\<close> block of \<^verbatim>\<open>delete_day\<close>, up to the \<^verbatim>\<open>COMMIT\<close>.\<close>

definition delete_day_try ::
  "(nat \<Rightarrow> bool) \<Rightarrow> int \<Rightarrow> connection \<Rightarrow> (error + unit) \<times> connection" where
  "delete_day_try fault d conn =
     (case execute_begin fault conn of
        (Inl e, c1) \<Rightarrow> (Inl e, c1)
      | (Inr _, c1) \<Rightarrow>
          (case execute_write fault (delete_results d) c1 of
             (Inl e, c2) \<Rightarrow> (Inl e, c2)
           | (Inr _, c2) \<Rightarrow>
               (case execute_write fault (delete_streak d) c2 of
                  (Inl e, c3) \<Rightarrow> (Inl e, c3)
                | (Inr _, c3) \<Rightarrow> execute_commit fault c3)))"

text \<open>
  \<^verbatim>\<open>delete_day\<close>. \<open>fault_details\<close> are the storage faults of the connection of
  \<^verbatim>\<open>get_day_details\<close>, whose exceptions \<^verbatim>\<open>delete_day\<close> does not catch, and \<open>fault\<close>
  those of the connection that deletes; \<open>typed\<close> is what the user answers to the
  prompt, which is asked when \<open>confirm\<close> is false. An exception of the \<^verbatim>\<open>try\<close> block
  is answered by \<^verbatim>\<open>ROLLBACK\<close> and \<^verbatim>\<open>close\<close>, with their own exceptions passed over,
  and the function returns \<^verbatim>\<open>False\<close>; the connection is dropped then in any case.
\<close>

definition delete_day ::
  "(nat \<Rightarrow> bool) \<Rightarrow> (nat \<Rightarrow> bool) \<Rightarrow> int \<Rightarrow> bool \<Rightarrow> pystr \<Rightarrow> database
     \<Rightarrow> (error + bool) \<times> database" where
  "delete_day fault_details fault d confirm typed db =
     (case get_day_details fault_details d db of
        Inl e \<Rightarrow> (Inl e, db)
      | Inr None \<Rightarrow> (Inr False, db)
      | Inr (Some details) \<Rightarrow>
          if \<not> confirm \<and> strip typed \<noteq> lit ''DELETE'' then (Inr False, db)
          else (case delete_day_try fault d (connect db) of
                  (Inr _, c) \<Rightarrow> (Inr True, close c)
                | (Inl e, c) \<Rightarrow> (Inr False, close (snd (execute_rollback fault c)))))"

section \<open>Statistics\<close>

text \<open>
  A list comprehension whose element expression can raise: the elements are computed
  from left to right and the first exception ends the comprehension.
\<close>

fun map_raise :: "('a \<Rightarrow> error + 'b) \<Rightarrow> 'a list \<Rightarrow> error + 'b list" where
  "map_raise f [] = Inr []"
| "map_raise f (x # xs) =
     (case f x of
        Inl e \<Rightarrow> Inl e
      | Inr y \<Rightarrow> (case map_raise f xs of Inl e \<Rightarrow> Inl e | Inr ys \<Rightarrow> Inr (y # ys)))"

text \<open>\<^verbatim>\<open>WordleCommon.score_to_numeric\<close> of \<^verbatim>\<open>src/utils/common.py\<close>.\<close>

definition score_to_numeric :: "pystr \<Rightarrow> error + int" where
  "score_to_numeric sc = (if sc = lit ''X'' then Inr 7 else py_int sc)"

text \<open>
  \<^verbatim>\<open>statistics.mean\<close> and \<^verbatim>\<open>statistics.variance\<close> on integers, which Python computes
  exactly before it rounds the result to a float. Here and below a Python float is the
  rational number it approximates; the rounding is not modelled.
\<close>

definition mean :: "int list \<Rightarrow> rat" where
  "mean xs = of_int (sum_list xs) / of_nat (length xs)"

definition variance :: "int list \<Rightarrow> rat" where
  "variance xs =
     sum_list (map (\<lambda>x. (of_int x - mean xs) ^ 2) xs) / of_nat (length xs - 1)"

text \<open>
  The first query of \<^verbatim>\<open>get_all_time_stats\<close> in \<^verbatim>\<open>src/web/wordle_stats_app.py\<close>: for
  every user with a result, in the order of the user names, the name, the id, the
  number of results and the scores joined by commas (\<^verbatim>\<open>GROUP_CONCAT\<close>). SQLite leaves
  the order of the joined values open; on the automatic index that SQLite 3.46 runs this
  join with, the scores of a user come in the order of their text and, where equal, of
  their rowid, and that order is taken here.
\<close>

fun join :: "pystr \<Rightarrow> pystr list \<Rightarrow> pystr" where
  "join sep [] = []"
| "join sep [s] = s"
| "join sep (s # t # ss) = s @ sep @ join sep (t # ss)"

definition all_time_query :: "database \<Rightarrow> (pystr \<times> nat \<times> nat \<times> pystr) list" where
  "all_time_query db =
     map (\<lambda>u. (username u, u_id u,
                length (filter (\<lambda>r. user_id r = u_id u) (results db)),
                join (lit '','')
                  (map score
                     (sort_key score (filter (\<lambda>r. user_id r = u_id u) (results db))))))
       (filter (\<lambda>u. 0 < length (filter (\<lambda>r. user_id r = u_id u) (results db)))
          (sort_key username (users db)))"

record score_stats =
  ss_user_id :: nat
  games_played :: nat
  scores :: "pystr list"
  numeric_scores :: "int list"
  average_score :: rat
  score_variance :: rat

text \<open>The body of the loop over the rows of that query, and the loop.\<close>

definition all_time_row :: "pystr \<times> nat \<times> nat \<times> pystr \<Rightarrow> error + pystr \<times> score_stats" where
  "all_time_row row =
     (case row of (name, uid, played, all_scores_str) \<Rightarrow>
        (let scs = (if all_scores_str \<noteq> [] then split 44 all_scores_str else [])
         in case map_raise score_to_numeric scs of
              Inl e \<Rightarrow> Inl e
            | Inr nums \<Rightarrow>
                Inr (name,
                     \<lparr>ss_user_id = uid, games_played = played, scores = scs,
                      numeric_scores = nums,
                      average_score = (if nums \<noteq> [] then mean nums else 0),
                      score_variance = (if 1 < length nums then variance nums else 0)\<rparr>)))"

definition all_time_score_stats :: "database \<Rightarrow> error + (pystr \<times> score_stats) list" where
  "all_time_score_stats db = map_raise all_time_row (all_time_query db)"

text \<open>
  The statistics of \<^verbatim>\<open>show_day_data\<close> in \<^verbatim>\<open>src/core/show_day.py\<close>, computed from the
  rows (user name, score, winner flag) of the day, of which there is at least one.
\<close>

record day_stats =
  total_players :: nat
  successful_players :: nat
  failed_players :: nat
  avg_score :: "rat option"

definition show_day_stats :: "(pystr \<times> pystr \<times> bool) list \<Rightarrow> error + day_stats" where
  "show_day_stats rows =
     (let successful = length (filter (\<lambda>r. fst (snd r) \<noteq> lit ''X'') rows);
          failed = length (filter (\<lambda>r. fst (snd r) = lit ''X'') rows)
      in if 0 < successful
         then (case map_raise py_int
                      (map (\<lambda>r. fst (snd r)) (filter (\<lambda>r. fst (snd r) \<noteq> lit ''X'') rows)) of
                 Inl e \<Rightarrow> Inl e
               | Inr vs \<Rightarrow>
                   Inr \<lparr>total_players = length rows, successful_players = successful,
                        failed_players = failed,
                        avg_score = Some (of_int (sum_list vs) / of_nat successful)\<rparr>)
         else Inr \<lparr>total_players = length rows, successful_players = successful,
                   failed_players = failed, avg_score = None\<rparr>)"

section \<open>Streak consistency\<close>

text \<open>
  \<^verbatim>\<open>_find_longest_consecutive_streak\<close> and \<^verbatim>\<open>_calculate_streak_consistency\<close> of
  \<^verbatim>\<open>src/web/wordle_stats_app.py\<close>. The loop of the first carries the day before,
  \<^verbatim>\<open>current_streak\<close> and \<^verbatim>\<open>max_streak\<close>.
\<close>

fun longest_loop :: "int \<Rightarrow> nat \<Rightarrow> nat \<Rightarrow> int list \<Rightarrow> nat" where
  "longest_loop prev current_streak max_streak [] = max_streak"
| "longest_loop prev current_streak max_streak (d # ds) =
     (if d = prev + 1
      then longest_loop d (current_streak + 1) (max max_streak (current_streak + 1)) ds
      else longest_loop d 1 max_streak ds)"

definition find_longest_consecutive_streak :: "int list \<Rightarrow> nat" where
  "find_longest_consecutive_streak days =
     (case days of [] \<Rightarrow> 0 | d # ds \<Rightarrow> longest_loop d 1 1 ds)"

text \<open>
  The list \<^verbatim>\<open>gaps\<close>: for each two neighbours of the list that are more than one
  apart, the number of days between them.
\<close>

fun gaps :: "int list \<Rightarrow> int list" where
  "gaps (a # b # ds) = (if 1 < b - a then (b - a - 1) # gaps (b # ds) else gaps (b # ds))"
| "gaps ds = []"

record streak_info =
  longest_streak :: nat
  consistency_score :: rat
  total_gaps :: nat
  average_gap :: rat

text \<open>The body of the loop over the rows of the query, for the days of one user.\<close>

definition streak_info_of :: "int list \<Rightarrow> streak_info" where
  "streak_info_of days =
     (let avg_gap = (if gaps days \<noteq> [] then mean (gaps days) else 0)
      in \<lparr>longest_streak = find_longest_consecutive_streak days,
          consistency_score = 1 / (1 + avg_gap),
          total_gaps = length (gaps days),
          average_gap = avg_gap\<rparr>)"

text \<open>
  The query: for every user with a result (in the range of days, when both bounds are
  given and not zero), the name and the days of the results in ascending order.
  \<^verbatim>\<open>GROUP_CONCAT\<close> writes the days as decimal numbers joined by commas and the loop
  reads them back with \<^verbatim>\<open>split\<close> and \<^verbatim>\<open>int\<close>; the list of integers stands for both.
\<close>

definition in_day_range :: "int option \<Rightarrow> int option \<Rightarrow> result_row \<Rightarrow> bool" where
  "in_day_range start_day end_day r =
     (case (start_day, end_day) of
        (Some s, Some e) \<Rightarrow>
          if s \<noteq> 0 \<and> e \<noteq> 0 then s \<le> streak_day r \<and> streak_day r \<le> e else True
      | _ \<Rightarrow> True)"

definition consistency_query ::
  "int option \<Rightarrow> int option \<Rightarrow> database \<Rightarrow> (pystr \<times> int list) list" where
  "consistency_query start_day end_day db =
     map (\<lambda>u. (username u,
                sort (map streak_day
                  (filter (\<lambda>r. user_id r = u_id u \<and> in_day_range start_day end_day r)
                     (results db)))))
       (filter (\<lambda>u. list_ex (\<lambda>r. user_id r = u_id u \<and> in_day_range start_day end_day r)
                      (results db))
          (users db))"

text \<open>The dictionary \<^verbatim>\<open>streak_data\<close>, filled row by row.\<close>

definition calculate_streak_consistency ::
  "int option \<Rightarrow> int option \<Rightarrow> database \<Rightarrow> (pystr \<rightharpoonup> streak_info)" where
  "calculate_streak_consistency start_day end_day db =
     foldl (\<lambda>streak_data row.
              case row of (name, days) \<Rightarrow>
                if days = [] then streak_data
                else streak_data(name \<mapsto> streak_info_of days))
       Map.empty (consistency_query start_day end_day db)"

section \<open>Evaluation on concrete inputs\<close>

text \<open>The defining equations that evaluate the model on a concrete input.\<close>

lemmas text_eval = lit_def is_digit_def nd_starts_def digit_value_def is_space_def
  is_int_space_def strip_def
  is_punct_def rstrip_punct_def is_score_def crown_def at_end_def

lemmas parse_eval = match_streak_def py_int_def digits_value_def int_max_str_digits_def
  score_marker_def match_score_def user_stop_def sub_trailing_punct_def clean_username_def
  block_results_def parse_message_def List.map_filter_def Let_def

lemmas store_eval = new_rowid_def insert_or_ignore_streak_def insert_or_ignore_user_def
  select_user_id_def insert_or_replace_result_def count_results_def connect_def view_def
  execute_write_def execute_query_def commit_def rollback_def close_def bindable_def
  encodable_def bind_error_def
  add_user_def add_streak_try_def add_streak_data_def

lemmas delete_eval = select_streak_def select_day_results_def get_day_details_def
  execute_begin_def execute_commit_def execute_rollback_def delete_results_def
  delete_streak_def delete_day_try_def delete_day_def

lemmas stats_eval = score_to_numeric_def mean_def variance_def all_time_query_def
  all_time_row_def all_time_score_stats_def show_day_stats_def

lemmas consistency_eval = find_longest_consecutive_streak_def streak_info_of_def
  in_day_range_def consistency_query_def calculate_streak_consistency_def mean_def

text \<open>
  Stores for the examples: the empty one; the one that holds day 5 with the result of
  Alice, as the ingestion of \<^verbatim>\<open>5 day streak 3/6: @Alice\<close> into the empty store
  leaves it; that store after \<^verbatim>\<open>5 day streak 4/6: @Bob\<close> was ingested at time 7; and
  that store after \<^verbatim>\<open>5 day streak 4/6: @Alice@Bob\<close> was ingested at time 7 instead.
\<close>

definition empty_db :: database where
  "empty_db = \<lparr>users = [], streaks = [], results = [], users_seq = 0, streaks_seq = 0,
               results_seq = 0\<rparr>"

definition day5_db :: database where
  "day5_db =
     \<lparr>users = [\<lparr>u_id = 1, username = lit ''Alice'', first_seen = 0\<rparr>],
      streaks = [\<lparr>s_id = 1, day = 5, imported_at = 0\<rparr>],
      results = [\<lparr>r_id = 1, streak_day = 5, user_id = 1, score = lit ''3'',
                  is_winner = False\<rparr>],
      users_seq = 1, streaks_seq = 1, results_seq = 1\<rparr>"

definition day5_bob_db :: database where
  "day5_bob_db =
     \<lparr>users = [\<lparr>u_id = 1, username = lit ''Alice'', first_seen = 0\<rparr>,
               \<lparr>u_id = 2, username = lit ''Bob'', first_seen = 7\<rparr>],
      streaks = [\<lparr>s_id = 1, day = 5, imported_at = 0\<rparr>],
      results = [\<lparr>r_id = 1, streak_day = 5, user_id = 1, score = lit ''3'',
                  is_winner = False\<rparr>,
                 \<lparr>r_id = 2, streak_day = 5, user_id = 2, score = lit ''4'',
                  is_winner = False\<rparr>],
      users_seq = 2, streaks_seq = 2, results_seq = 2\<rparr>"

definition day5_again_db :: database where
  "day5_again_db =
     \<lparr>users = [\<lparr>u_id = 1, username = lit ''Alice'', first_seen = 0\<rparr>,
               \<lparr>u_id = 3, username = lit ''Bob'', first_seen = 7\<rparr>],
      streaks = [\<lparr>s_id = 1, day = 5, imported_at = 0\<rparr>],
      results = [\<lparr>r_id = 2, streak_day = 5, user_id = 1, score = lit ''4'',
                  is_winner = False\<rparr>,
                 \<lparr>r_id = 3, streak_day = 5, user_id = 3, score = lit ''4'',
                  is_winner = False\<rparr>],
      users_seq = 3, streaks_seq = 2, results_seq = 3\<rparr>"

lemma day5_db_ingested:
  "add_streak_data (\<lambda>k. False) 0 (lit ''5 day streak 3/6: @Alice'') empty_db
     = (Inr \<lparr>s_day = 5, results_added = 1, users_in_day = [lit ''Alice'']\<rparr>, day5_db)"
  by (simp add: text_eval parse_eval store_eval empty_db_def day5_db_def)

section \<open>The day marker\<close>

text \<open>
  A text has a day marker when it holds a non-empty run of decimal digits followed by
  \<^verbatim>\<open> day streak\<close>, in lower case as the pattern has it. The search finds a marker
  exactly when there is one, and the one it finds has no match starting before it.
\<close>

definition has_streak_marker :: "pystr \<Rightarrow> bool" where
  "has_streak_marker message =
     (\<exists>pre ds post. message = pre @ ds @ lit '' day streak'' @ post
        \<and> ds \<noteq> [] \<and> list_all is_digit ds)"

lemma blank_not_digit: "\<not> is_digit 32"
  by (simp add: is_digit_def nd_starts_def)

lemma day_streak_hd: "lit '' day streak'' @ post = 32 # lit ''day streak'' @ post"
  by (simp add: lit_def)

lemma match_streak_digits:
  assumes "ds \<noteq> []" "list_all is_digit ds"
  shows "match_streak (ds @ lit '' day streak'' @ post) = Some ds"
proof -
  have d: "\<forall>x\<in>set ds. is_digit x" using assms(2) by (simp add: list_all_iff)
  have t: "takeWhile is_digit (ds @ lit '' day streak'' @ post) = ds"
    using d by (simp add: day_streak_hd blank_not_digit takeWhile_append2 del: append_assoc)
  have r: "dropWhile is_digit (ds @ lit '' day streak'' @ post) = lit '' day streak'' @ post"
    using d by (simp add: day_streak_hd blank_not_digit dropWhile_append2)
  show ?thesis
    unfolding match_streak_def Let_def t r using assms(1) by simp
qed

lemma match_streak_SomeD:
  assumes "match_streak s = Some ds"
  shows "\<exists>post. s = ds @ lit '' day streak'' @ post \<and> ds \<noteq> [] \<and> list_all is_digit ds"
proof -
  from assms have ds: "ds = takeWhile is_digit s" and ne: "ds \<noteq> []"
    and p: "prefix (lit '' day streak'') (dropWhile is_digit s)"
    by (auto simp: match_streak_def Let_def split: if_splits)
  from p obtain post where "dropWhile is_digit s = lit '' day streak'' @ post"
    by (auto simp: prefix_def)
  then have "s = ds @ lit '' day streak'' @ post"
    using takeWhile_dropWhile_id [of is_digit s] ds by simp
  moreover have "list_all is_digit ds"
    unfolding ds list_all_iff by (auto dest: set_takeWhileD)
  ultimately show ?thesis using ne by blast
qed

lemma search_streak_SomeD:
  "search_streak m = Some ds \<Longrightarrow>
     \<exists>pre post. m = pre @ ds @ lit '' day streak'' @ post \<and> ds \<noteq> [] \<and> list_all is_digit ds
        \<and> (\<forall>k<length pre. match_streak (drop k m) = None)"
proof (induction m)
  case Nil
  then show ?case by simp
next
  case (Cons c cs)
  show ?case
  proof (cases "match_streak (c # cs)")
    case (Some ds')
    with Cons.prems have "ds' = ds" by simp
    with Some match_streak_SomeD [of "c # cs" ds] obtain post where
      "c # cs = [] @ ds @ lit '' day streak'' @ post" "ds \<noteq> []" "list_all is_digit ds"
      by auto
    then show ?thesis by (metis length_0_conv not_less_zero list.size(3))
  next
    case None
    with Cons.prems have "search_streak cs = Some ds" by simp
    from Cons.IH [OF this] obtain pre post where
      m: "cs = pre @ ds @ lit '' day streak'' @ post" and ok: "ds \<noteq> []" "list_all is_digit ds"
      and first: "\<forall>k<length pre. match_streak (drop k cs) = None"
      by blast
    have "\<forall>k<length (c # pre). match_streak (drop k (c # cs)) = None"
    proof (intro allI impI)
      fix k assume "k < length (c # pre)"
      then show "match_streak (drop k (c # cs)) = None"
        using None first by (cases k) auto
    qed
    moreover have "c # cs = (c # pre) @ ds @ lit '' day streak'' @ post" using m by simp
    ultimately show ?thesis using ok by blast
  qed
qed

lemma search_streak_first:
  "\<forall>k<length pre. match_streak (drop k (pre @ s)) = None \<Longrightarrow>
   search_streak (pre @ s) = search_streak s"
proof (induction pre)
  case Nil
  then show ?case by simp
next
  case (Cons c pre)
  from Cons.prems have h: "match_streak (c # pre @ s) = None"
    by (auto dest: spec [of _ 0])
  have "\<forall>k<length pre. match_streak (drop k (pre @ s)) = None"
  proof (intro allI impI)
    fix k assume "k < length pre"
    then have "Suc k < length (c # pre)" by simp
    with Cons.prems have "match_streak (drop (Suc k) ((c # pre) @ s)) = None" by blast
    then show "match_streak (drop k (pre @ s)) = None" by simp
  qed
  from Cons.IH [OF this] h show ?case by simp
qed

lemma search_streak_None_iff: "search_streak m = None \<longleftrightarrow> \<not> has_streak_marker m"
proof
  assume n: "search_streak m = None"
  show "\<not> has_streak_marker m"
  proof
    assume "has_streak_marker m"
    then obtain pre ds post where m: "m = pre @ ds @ lit '' day streak'' @ post"
      and ok: "ds \<noteq> []" "list_all is_digit ds"
      unfolding has_streak_marker_def by blast
    have "search_streak (pre @ s) = None \<Longrightarrow> search_streak s = None" for s
      by (induction pre) (auto split: option.splits)
    from this [of "ds @ lit '' day streak'' @ post"] n m
    have "search_streak (ds @ lit '' day streak'' @ post) = None" by simp
    moreover have "search_streak (ds @ lit '' day streak'' @ post) = Some ds"
      using match_streak_digits [OF ok, of post] ok(1)
      by (cases ds) auto
    ultimately show False by simp
  qed
next
  assume "\<not> has_streak_marker m"
  then show "search_streak m = None"
    using search_streak_SomeD [of m] unfolding has_streak_marker_def
    by (cases "search_streak m") blast+
qed

lemma parse_message_no_marker:
  "\<not> has_streak_marker message \<Longrightarrow> parse_message message = Inl (ValueError NoStreakDay)"
  by (simp add: parse_message_def search_streak_None_iff [symmetric])

text \<open>
  Claim C5. A text with no day marker makes \<open>parse_message\<close> raise its
  \<^verbatim>\<open>ValueError\<close>, and \<open>add_streak_data\<close> then raises it too and leaves the store
  as it was, whatever the store, the clock and the storage faults are.
\<close>

theorem missing_marker_raises_no_mutation:
  assumes "\<not> has_streak_marker message"
  shows "parse_message message = Inl (ValueError NoStreakDay)
         \<and> add_streak_data fault now message db = (Inl (ValueError NoStreakDay), db)"
  using parse_message_no_marker [OF assms] by (simp add: add_streak_data_def)

theorem missing_marker_witness:
  "\<not> has_streak_marker (lit ''3/6: @Alice'')
   \<and> parse_message (lit ''3/6: @Alice'') = Inl (ValueError NoStreakDay)
   \<and> add_streak_data (\<lambda>k. False) 0 (lit ''3/6: @Alice'') day5_db
       = (Inl (ValueError NoStreakDay), day5_db)"
proof -
  have h: "\<not> has_streak_marker (lit ''3/6: @Alice'')"
    unfolding search_streak_None_iff [symmetric]
    by (simp add: lit_def match_streak_def is_digit_def nd_starts_def)
  show ?thesis
    using h missing_marker_raises_no_mutation [OF h, of "\<lambda>k. False" 0 day5_db] by simp
qed

section \<open>The summary of an ingestion\<close>

lemma view_commit:
  "commit fault c = (Inr u, c') \<Longrightarrow> txn c' = None \<and> db_file c' = view c"
  by (auto simp: commit_def split: if_splits)

text \<open>
  Claim C10. When \<open>add_streak_data\<close> returns, its \<open>results_added\<close> is the number
  of rows of \<open>results\<close> that the store holds for that day after the commit, whatever
  earlier ingestions put there; it is not the number of results of the message. In the
  example the message has one result and the count is two.
\<close>

theorem results_added_counts_stored_day:
  assumes "add_streak_data fault now message db = (Inr s, db')"
  shows "results_added s = length (filter (\<lambda>r. streak_day r = s_day s) (results db'))"
proof -
  from assms obtain p c where p: "parse_message message = Inr p"
    and t: "add_streak_try fault now p (connect db) = (Inr s, c)" and c: "db' = close c"
    by (auto simp: add_streak_data_def split: sum.splits prod.splits)
  from t obtain c2 c3 u where cm: "commit fault c2 = (Inr u, c3)"
    and q: "execute_query fault (count_results (p_day p)) c3 = (Inr (results_added s), c)"
    and d: "s_day s = p_day p"
    by (auto simp: add_streak_try_def Let_def split: sum.splits prod.splits if_splits)
  from view_commit [OF cm] have v: "view c3 = db_file c3" by (simp add: view_def)
  from q have "results_added s = count_results (p_day p) (view c3)" and "db_file c = db_file c3"
    by (auto simp: execute_query_def split: if_splits)
  then show ?thesis using v c d by (simp add: count_results_def close_def)
qed

theorem results_added_witness:
  "add_streak_data (\<lambda>k. False) 7 (lit ''5 day streak 4/6: @Bob'') day5_db
     = (Inr \<lparr>s_day = 5, results_added = 2, users_in_day = [lit ''Bob'']\<rparr>, day5_bob_db)
   \<and> results_added \<lparr>s_day = 5, results_added = 2, users_in_day = [lit ''Bob'']\<rparr>
       = length (filter (\<lambda>r. streak_day r
                    = s_day \<lparr>s_day = 5, results_added = 2, users_in_day = [lit ''Bob'']\<rparr>)
                  (results day5_bob_db))
   \<and> parse_message (lit ''5 day streak 4/6: @Bob'')
       = Inr \<lparr>p_day = 5, p_results = [\<lparr>p_username = lit ''Bob'', p_score = lit ''4'',
                                       p_is_winner = False\<rparr>]\<rparr>"
proof -
  have h: "add_streak_data (\<lambda>k. False) 7 (lit ''5 day streak 4/6: @Bob'') day5_db
     = (Inr \<lparr>s_day = 5, results_added = 2, users_in_day = [lit ''Bob'']\<rparr>, day5_bob_db)"
    by (simp add: text_eval parse_eval store_eval day5_db_def day5_bob_db_def)
  have p: "parse_message (lit ''5 day streak 4/6: @Bob'')
       = Inr \<lparr>p_day = 5, p_results = [\<lparr>p_username = lit ''Bob'', p_score = lit ''4'',
                                       p_is_winner = False\<rparr>]\<rparr>"
    by (simp add: text_eval parse_eval)
  show ?thesis
    using h p results_added_counts_stored_day [OF h] by simp
qed

section \<open>Storage faults and rollback\<close>

text \<open>
  The statements of one call of \<open>add_streak_data\<close> are numbered from 0: the insert of
  the streak day is statement 0, the result numbered \<open>j\<close> (from 0) of the message runs
  the statements \<open>3j + 1\<close> (insert of the user), \<open>3j + 2\<close> (select of the user's id)
  and \<open>3j + 3\<close> (insert of the result), and with \<open>n\<close> results the commit is statement
  \<open>3n + 1\<close>. No statement before the commit touches the database file.
\<close>

lemma execute_write_db_file: "db_file (snd (execute_write fault stmt c)) = db_file c"
  by (simp add: execute_write_def)

lemma execute_query_db_file: "db_file (snd (execute_query fault q c)) = db_file c"
  by (simp add: execute_query_def)

lemma rollback_db_file: "db_file (snd (rollback fault c)) = db_file c"
  by (simp add: rollback_def)

lemma add_user_db_file: "db_file (snd (add_user fault now c name)) = db_file c"
  by (simp add: add_user_def execute_write_def execute_query_def bind_error_def
      split: option.splits)

lemma add_results_db_file: "db_file (snd (add_results fault now d rs c)) = db_file c"
proof (induction rs arbitrary: c)
  case Nil
  then show ?case by simp
next
  case (Cons r rs)
  show ?case
  proof (cases "add_user fault now c (p_username r)")
    case (Pair res c1)
    have c1: "db_file c1 = db_file c" using add_user_db_file [of fault now c "p_username r"] Pair by simp
    show ?thesis
    proof (cases res)
      case (Inl e)
      then show ?thesis using Pair c1 by simp
    next
      case (Inr uid)
      let ?w = "if encodable (p_score r)
                then execute_write fault
                       (insert_or_replace_result d uid (p_score r) (p_is_winner r)) c1
                else bind_error UnicodeEncodeError c1"
      obtain res2 c2 where w: "?w = (res2, c2)" by (cases ?w)
      have c2: "db_file c2 = db_file c"
        using execute_write_db_file
          [of fault "insert_or_replace_result d uid (p_score r) (p_is_winner r)" c1] w c1
        by (auto simp: bind_error_def split: if_splits)
      show ?thesis
        using Pair Inr w c2 Cons.IH [of c2] by (cases res2) simp_all
    qed
  qed
qed

lemma add_user_Inr:
  assumes "add_user fault now c name = (Inr uid, c')"
  shows "executed c' = executed c + 2 \<and> \<not> fault (executed c) \<and> \<not> fault (Suc (executed c))"
  using assms
  by (auto simp: add_user_def execute_write_def execute_query_def bind_error_def
      split: if_splits option.splits)

lemma execute_write_Inr:
  assumes "execute_write fault stmt c = (Inr u, c')"
  shows "executed c' = Suc (executed c) \<and> \<not> fault (executed c)"
  using assms by (auto simp: execute_write_def split: if_splits)

lemma add_results_Inr:
  "add_results fault now d rs c = (Inr u, c') \<Longrightarrow>
     executed c' = executed c + 3 * length rs
     \<and> (\<forall>k. executed c \<le> k \<and> k < executed c' \<longrightarrow> \<not> fault k)"
proof (induction rs arbitrary: c)
  case Nil
  then show ?case by auto
next
  case (Cons r rs)
  from Cons.prems obtain uid c1 c2 u2 where
    a: "add_user fault now c (p_username r) = (Inr uid, c1)"
    and w: "execute_write fault (insert_or_replace_result d uid (p_score r) (p_is_winner r)) c1
            = (Inr u2, c2)"
    and r: "add_results fault now d rs c2 = (Inr u, c')"
    by (auto simp: bind_error_def split: prod.splits sum.splits if_splits)
  note A = add_user_Inr [OF a] and W = execute_write_Inr [OF w] and R = Cons.IH [OF r]
  have e: "executed c2 = executed c + 3" using A W by simp
  have "\<not> fault k" if "executed c \<le> k" "k < executed c'" for k
  proof (cases "k < executed c + 3")
    case True
    with that have "k = executed c \<or> k = Suc (executed c) \<or> k = executed c1"
      using A by auto
    then show ?thesis using A W by auto
  next
    case False
    then show ?thesis using R e that by auto
  qed
  then show ?case using R e by auto
qed

lemma add_streak_try_fault:
  assumes "executed conn \<le> k" "k \<le> executed conn + 3 * length (p_results p) + 1" "fault k"
  shows "\<exists>e c. add_streak_try fault now p conn = (Inl e, c) \<and> db_file c = db_file conn"
proof -
  let ?d = "p_day p"
  let ?first = "(if bindable ?d
               then execute_write fault (insert_or_ignore_streak now ?d) conn
               else bind_error OverflowError conn)"
  obtain r1 c1 where f: "?first = (r1, c1)" by (cases ?first)
  have c1: "db_file c1 = db_file conn"
    using f execute_write_db_file [of fault "insert_or_ignore_streak now ?d" conn]
    by (auto simp: bind_error_def split: if_splits)
  show ?thesis
  proof (cases r1)
    case (Inl e)
    then show ?thesis using f c1 by (simp add: add_streak_try_def Let_def)
  next
    case (Inr u1)
    with f have b: "bindable ?d"
      and w: "execute_write fault (insert_or_ignore_streak now ?d) conn = (Inr u1, c1)"
      by (auto simp: bind_error_def split: if_splits)
    note W = execute_write_Inr [OF w]
    obtain r2 c2 where a: "add_results fault now ?d (p_results p) c1 = (r2, c2)"
      by (cases "add_results fault now ?d (p_results p) c1")
    have c2: "db_file c2 = db_file conn"
      using add_results_db_file [of fault now ?d "p_results p" c1] a c1 by simp
    show ?thesis
    proof (cases r2)
      case (Inl e)
      then show ?thesis using f Inr a c2 by (simp add: add_streak_try_def Let_def)
    next
      case (Inr u2)
      note R = add_results_Inr [OF a [unfolded Inr]]
      have "k = executed c2"
      proof -
        have "k \<noteq> executed conn" using W assms(3) by auto
        moreover have "\<not> (executed c1 \<le> k \<and> k < executed c2)" using R assms(3) by blast
        ultimately show ?thesis using assms(1,2) W R by auto
      qed
      then have "fault (executed c2)" using assms(3) by simp
      then have "commit fault c2 = (Inl DatabaseError, c2\<lparr>executed := Suc (executed c2)\<rparr>)"
        by (simp add: commit_def)
      then show ?thesis
        using f \<open>r1 = Inr u1\<close> a Inr c2 by (simp add: add_streak_try_def Let_def)
    qed
  qed
qed

text \<open>
  Claim C2. When a statement of the transaction fails, up to and including the commit,
  \<open>add_streak_data\<close> raises and the stored state after the call is the stored state
  before it: none of the message's results is persisted, and a streak day that was not
  stored before is not stored afterwards. In the example the insert of the third of
  five results fails.
\<close>

theorem ingestion_fault_rolls_back:
  assumes "parse_message message = Inr p"
    and "k \<le> 3 * length (p_results p) + 1" and "fault k"
  shows "\<exists>e. add_streak_data fault now message db = (Inl e, db)"
proof -
  have "executed (connect db) \<le> k" "k \<le> executed (connect db) + 3 * length (p_results p) + 1"
    using assms(2) by (simp_all add: connect_def)
  from add_streak_try_fault [of "connect db" k p fault now, OF this assms(3)]
  obtain e c where t: "add_streak_try fault now p (connect db) = (Inl e, c)"
    and c: "db_file c = db_file (connect db)" by blast
  obtain r c' where rb: "rollback fault c = (r, c')" by (cases "rollback fault c")
  have "db_file c' = db" using rollback_db_file [of fault c] rb c by (simp add: connect_def)
  then show ?thesis
    using assms(1) t rb by (cases r) (simp_all add: add_streak_data_def close_def)
qed

lemma parse_five:
  "parse_message (lit ''9 day streak 3/6: @A@B@C 4/6: @D@E'')
     = Inr \<lparr>p_day = 9, p_results =
         [\<lparr>p_username = lit ''A'', p_score = lit ''3'', p_is_winner = False\<rparr>,
          \<lparr>p_username = lit ''B'', p_score = lit ''3'', p_is_winner = False\<rparr>,
          \<lparr>p_username = lit ''C'', p_score = lit ''3'', p_is_winner = False\<rparr>,
          \<lparr>p_username = lit ''D'', p_score = lit ''4'', p_is_winner = False\<rparr>,
          \<lparr>p_username = lit ''E'', p_score = lit ''4'', p_is_winner = False\<rparr>]\<rparr>"
  by (simp add: text_eval parse_eval)

theorem ingestion_fault_witness:
  "add_streak_data (\<lambda>k. k = 9) 0 (lit ''9 day streak 3/6: @A@B@C 4/6: @D@E'') day5_db
     = (Inl DatabaseError, day5_db)
   \<and> \<not> list_ex (\<lambda>s. day s = 9) (streaks day5_db)
   \<and> (\<exists>e. add_streak_data (\<lambda>k. k = 9) 0 (lit ''9 day streak 3/6: @A@B@C 4/6: @D@E'') day5_db
            = (Inl e, day5_db))"
proof -
  have k: "(9::nat) \<le> 3 * length (p_results \<lparr>p_day = 9, p_results =
         [\<lparr>p_username = lit ''A'', p_score = lit ''3'', p_is_winner = False\<rparr>,
          \<lparr>p_username = lit ''B'', p_score = lit ''3'', p_is_winner = False\<rparr>,
          \<lparr>p_username = lit ''C'', p_score = lit ''3'', p_is_winner = False\<rparr>,
          \<lparr>p_username = lit ''D'', p_score = lit ''4'', p_is_winner = False\<rparr>,
          \<lparr>p_username = lit ''E'', p_score = lit ''4'', p_is_winner = False\<rparr>]\<rparr>) + 1"
    by simp
  have f: "(\<lambda>k. k = 9) (9::nat)" by simp
  have e: "add_streak_data (\<lambda>k. k = 9) 0 (lit ''9 day streak 3/6: @A@B@C 4/6: @D@E'') day5_db
     = (Inl DatabaseError, day5_db)"
    by (simp add: text_eval parse_eval store_eval day5_db_def)
  show ?thesis
    using ingestion_fault_rolls_back [OF parse_five k, of "\<lambda>k. k = 9" 0 day5_db] e
    by (simp add: day5_db_def)
qed

section \<open>The scores of a parsed message\<close>

text \<open>Every result of \<open>parse_message\<close> has a score of one character, a token.\<close>

lemma match_score_token:
  assumes "match_score s = Some (g1, g2, g3, rest)"
  shows "\<exists>c. g2 = [c] \<and> is_score c"
proof -
  define s1 where "s1 = (if prefix crown s then dropWhile is_space (drop 4 s) else s)"
  from assms obtain c s2 where "s1 = c # s2" "is_score c" "g2 = [c]"
    unfolding match_score_def s1_def [symmetric] Let_def
    by (auto split: list.splits if_splits option.splits)
  then show ?thesis by blast
qed

lemma findall_score_tokens:
  "(g1, g2, g3) \<in> set (findall_score s) \<Longrightarrow> \<exists>c. g2 = [c] \<and> is_score c"
proof (induction s rule: findall_score.induct)
  case 1
  then show ?case by simp
next
  case (2 c cs)
  show ?case
  proof (cases "match_score (c # cs)")
    case None
    with 2 show ?thesis by simp
  next
    case (Some m)
    obtain h1 h2 h3 rest where m: "m = (h1, h2, h3, rest)" by (cases m)
    note ms = Some [unfolded m]
    from "2.prems" ms
    have "(g1, g2, g3) = (h1, h2, h3) \<or> (g1, g2, g3) \<in> set (findall_score rest)" by simp
    then show ?thesis
    proof
      assume "(g1, g2, g3) = (h1, h2, h3)"
      then show ?thesis using match_score_token [OF ms] by simp
    next
      assume "(g1, g2, g3) \<in> set (findall_score rest)"
      then show ?thesis using "2.IH"(2) [OF ms refl refl refl] by simp
    qed
  qed
qed

lemma parse_message_scores:
  assumes "parse_message message = Inr p" and "r \<in> set (p_results p)"
  shows "\<exists>c. p_score r = [c] \<and> is_score c"
proof -
  from assms(1) have "p_results p = concat (map block_results (findall_score message))"
    by (auto simp: parse_message_def split: option.splits sum.splits)
  with assms(2) obtain g1 g2 g3 where g: "(g1, g2, g3) \<in> set (findall_score message)"
    and r: "r \<in> set (block_results (g1, g2, g3))" by auto
  from r have "p_score r = g2" by (auto simp: block_results_def)
  then show ?thesis using findall_score_tokens [OF g] by simp
qed

lemma parse_message_scores_encodable:
  assumes "parse_message message = Inr p" and "r \<in> set (p_results p)"
  shows "encodable (p_score r)"
  using parse_message_scores [OF assms] by (auto simp: encodable_def is_score_def)

section \<open>Ingestion without storage faults\<close>

text \<open>
  With no storage fault the loop of \<open>add_streak_data\<close> is a fold of \<open>apply_result\<close>
  over the results of the message, and the call commits that fold.
\<close>

definition apply_result :: "timestamp \<Rightarrow> int \<Rightarrow> database \<Rightarrow> parsed_result \<Rightarrow> database" where
  "apply_result now d db r =
     (let db1 = insert_or_ignore_user now (p_username r) db
      in case select_user_id (p_username r) db1 of
           None \<Rightarrow> db1
         | Some uid \<Rightarrow> insert_or_replace_result d uid (p_score r) (p_is_winner r) db1)"

definition ingest :: "timestamp \<Rightarrow> parsed_streak \<Rightarrow> database \<Rightarrow> database" where
  "ingest now p db =
     foldl (apply_result now (p_day p)) (insert_or_ignore_streak now (p_day p) db) (p_results p)"

lemma select_after_insert:
  "select_user_id name (insert_or_ignore_user now name db) \<noteq> None"
  by (auto simp: select_user_id_def insert_or_ignore_user_def Let_def list_ex_iff find_None_iff)

lemma add_user_no_fault:
  assumes "txn c = Some w" and "encodable name"
  shows "\<exists>uid. select_user_id name (insert_or_ignore_user now name w) = Some uid
     \<and> add_user (\<lambda>k. False) now c name
         = (Inr uid, c\<lparr>txn := Some (insert_or_ignore_user now name w),
                        executed := executed c + 2\<rparr>)"
proof -
  from select_after_insert [of name now w] obtain uid where
    "select_user_id name (insert_or_ignore_user now name w) = Some uid" by blast
  then show ?thesis
    using assms by (simp add: add_user_def execute_write_def execute_query_def view_def)
qed

lemma add_results_no_fault:
  "txn c = Some w \<Longrightarrow> \<forall>r\<in>set rs. encodable (p_username r) \<and> encodable (p_score r) \<Longrightarrow>
   add_results (\<lambda>k. False) now d rs c
     = (Inr (), c\<lparr>txn := Some (foldl (apply_result now d) w rs),
                   executed := executed c + 3 * length rs\<rparr>)"
proof (induction rs arbitrary: c w)
  case Nil
  then show ?case by simp
next
  case (Cons r rs)
  from Cons.prems(2) have en: "encodable (p_username r)" "encodable (p_score r)"
    and rest: "\<forall>r\<in>set rs. encodable (p_username r) \<and> encodable (p_score r)" by simp_all
  from add_user_no_fault [OF Cons.prems(1) en(1), of now] obtain uid where
    s: "select_user_id (p_username r) (insert_or_ignore_user now (p_username r) w) = Some uid"
    and a: "add_user (\<lambda>k. False) now c (p_username r)
         = (Inr uid, c\<lparr>txn := Some (insert_or_ignore_user now (p_username r) w),
                        executed := executed c + 2\<rparr>)" by blast
  let ?c2 = "c\<lparr>txn := Some (apply_result now d w r), executed := executed c + 3\<rparr>"
  have w: "execute_write (\<lambda>k. False)
             (insert_or_replace_result d uid (p_score r) (p_is_winner r))
             (c\<lparr>txn := Some (insert_or_ignore_user now (p_username r) w),
                executed := executed c + 2\<rparr>) = (Inr (), ?c2)"
    using s by (simp add: execute_write_def view_def apply_result_def Let_def)
  have "txn ?c2 = Some (apply_result now d w r)" by simp
  from Cons.IH [OF this rest] show ?case
    using a w en by simp
qed

lemma add_streak_data_no_fault:
  assumes "parse_message message = Inr p" and "bindable (p_day p)"
    and "list_all (\<lambda>r. encodable (p_username r)) (p_results p)"
  shows "add_streak_data (\<lambda>k. False) now message db
     = (Inr \<lparr>s_day = p_day p, results_added = count_results (p_day p) (ingest now p db),
             users_in_day = map p_username (p_results p)\<rparr>,
        ingest now p db)"
proof -
  let ?d = "p_day p"
  let ?c1 = "(connect db)\<lparr>txn := Some (insert_or_ignore_streak now ?d db), executed := 1\<rparr>"
  have w: "execute_write (\<lambda>k. False) (insert_or_ignore_streak now ?d) (connect db) = (Inr (), ?c1)"
    by (simp add: execute_write_def view_def connect_def)
  have t: "txn ?c1 = Some (insert_or_ignore_streak now ?d db)" by simp
  have "\<forall>r\<in>set (p_results p). encodable (p_username r) \<and> encodable (p_score r)"
    using assms(3) parse_message_scores_encodable [OF assms(1)] by (simp add: list_all_iff)
  note r = add_results_no_fault [OF t this, of now ?d]
  show ?thesis
    using assms(1,2) w r
    by (simp add: add_streak_data_def add_streak_try_def Let_def commit_def execute_query_def
        view_def close_def ingest_def connect_def)
qed

text \<open>
  \<open>users_ok\<close> states the constraints of the table \<open>users\<close>: \<^verbatim>\<open>id\<close> is its primary
  key and \<^verbatim>\<open>username\<close> is \<^verbatim>\<open>UNIQUE\<close>. \<open>day_results\<close> is the join of \<open>results\<close> with
  \<open>users\<close> for one day and one user name, as \<^verbatim>\<open>get_day_details\<close> reads it.
\<close>

definition users_ok :: "database \<Rightarrow> bool" where
  "users_ok db = (distinct (map u_id (users db)) \<and> distinct (map username (users db)))"

definition day_results :: "database \<Rightarrow> int \<Rightarrow> pystr \<Rightarrow> result_row list" where
  "day_results db d name =
     filter (\<lambda>r. streak_day r = d
                \<and> list_ex (\<lambda>u. u_id u = user_id r \<and> username u = name) (users db))
       (results db)"

lemma fold_max_ge: "s \<le> fold max ids s \<and> (\<forall>i\<in>set ids. i \<le> fold max ids (s::nat))"
proof (induction ids arbitrary: s)
  case Nil
  then show ?case by simp
next
  case (Cons a ids)
  from Cons.IH [of "max a s"] show ?case by auto
qed

lemma new_rowid_fresh: "i \<in> set ids \<Longrightarrow> i < new_rowid seq ids"
  using fold_max_ge [of seq ids] by (auto simp: new_rowid_def)

lemma users_ok_insert:
  assumes "users_ok db"
  shows "users_ok (insert_or_ignore_user now name db)"
proof (cases "list_ex (\<lambda>u. username u = name) (users db)")
  case True
  then show ?thesis using assms by (simp add: insert_or_ignore_user_def Let_def users_ok_def)
next
  case False
  then have n: "name \<notin> set (map username (users db))" by (auto simp: list_ex_iff)
  have "new_rowid (users_seq db) (map u_id (users db)) \<notin> set (map u_id (users db))"
    using new_rowid_fresh [of _ "map u_id (users db)" "users_seq db"] by fastforce
  then show ?thesis
    using False n assms by (simp add: insert_or_ignore_user_def Let_def users_ok_def)
qed

lemma select_user_id_unique:
  assumes "users_ok db" and "select_user_id name db = Some uid"
  shows "\<forall>u\<in>set (users db). (u_id u = uid) = (username u = name)"
proof -
  from assms(2) obtain x where f: "find (\<lambda>u. username u = name) (users db) = Some x"
    and x: "u_id x = uid" by (auto simp: select_user_id_def)
  from f have xs: "x \<in> set (users db)" and xn: "username x = name"
    by (auto simp: find_Some_iff)
  have i1: "inj_on u_id (set (users db))" and i2: "inj_on username (set (users db))"
    using assms(1) by (simp_all add: users_ok_def distinct_map)
  show ?thesis
  proof
    fix u assume u: "u \<in> set (users db)"
    show "(u_id u = uid) = (username u = name)"
      using inj_onD [OF i1, of u x] inj_onD [OF i2, of u x] u xs xn x by auto
  qed
qed

lemma users_replace [simp]: "users (insert_or_replace_result d uid sc w db) = users db"
  by (simp add: insert_or_replace_result_def Let_def)

lemma users_ok_apply_result: "users_ok db \<Longrightarrow> users_ok (apply_result now d db r)"
  using users_ok_insert [of db now "p_username r"]
  by (auto simp: apply_result_def Let_def users_ok_def split: option.splits)

lemma users_ok_foldl: "users_ok db \<Longrightarrow> users_ok (foldl (apply_result now d) db rs)"
  by (induction rs arbitrary: db) (simp_all add: users_ok_apply_result)

lemma day_results_apply_same:
  assumes "users_ok db" and "p_username r = name"
  shows "\<exists>row. day_results (apply_result now d db r) d name = [row]
           \<and> score row = p_score r \<and> is_winner row = p_is_winner r"
proof -
  let ?db1 = "insert_or_ignore_user now name db"
  from select_after_insert [of name now db] obtain uid where
    s: "select_user_id name ?db1 = Some uid" by blast
  have ok: "users_ok ?db1" using users_ok_insert [OF assms(1)] .
  note U = select_user_id_unique [OF ok s]
  have ex: "list_ex (\<lambda>u. u_id u = uid \<and> username u = name) (users ?db1)"
  proof -
    from s obtain x where "find (\<lambda>u. username u = name) (users ?db1) = Some x" "u_id x = uid"
      by (auto simp: select_user_id_def)
    then have "x \<in> set (users ?db1)" "username x = name" "u_id x = uid"
      by (auto simp: find_Some_iff)
    then show ?thesis unfolding list_ex_iff by blast
  qed
  have old: "filter (\<lambda>r. streak_day r = d
                \<and> list_ex (\<lambda>u. u_id u = user_id r \<and> username u = name) (users ?db1))
              (filter (\<lambda>r. \<not> (streak_day r = d \<and> user_id r = uid)) (results ?db1)) = []"
    using U by (auto simp: filter_empty_conv list_ex_iff)
  show ?thesis
    using s ex old assms(2)
    by (simp add: apply_result_def day_results_def insert_or_replace_result_def Let_def)
qed

lemma day_results_apply_other:
  assumes "users_ok db" and "p_username r \<noteq> name"
  shows "day_results (apply_result now d db r) d name = day_results db d name"
proof -
  let ?n = "p_username r"
  let ?db1 = "insert_or_ignore_user now ?n db"
  from select_after_insert [of ?n now db] obtain uid where
    s: "select_user_id ?n ?db1 = Some uid" by blast
  have ok: "users_ok ?db1" using users_ok_insert [OF assms(1)] .
  note U = select_user_id_unique [OF ok s]
  have r1: "results ?db1 = results db" by (simp add: insert_or_ignore_user_def Let_def)
  have ex: "list_ex (\<lambda>u. u_id u = i \<and> username u = name) (users ?db1)
            = list_ex (\<lambda>u. u_id u = i \<and> username u = name) (users db)" for i
    using assms(2) by (auto simp: insert_or_ignore_user_def Let_def list_ex_iff)
  have no: "\<not> list_ex (\<lambda>u. u_id u = uid \<and> username u = name) (users ?db1)"
    using U assms(2) by (auto simp: list_ex_iff)
  have "filter (\<lambda>r. streak_day r = d
                \<and> list_ex (\<lambda>u. u_id u = user_id r \<and> username u = name) (users ?db1))
              (filter (\<lambda>r. \<not> (streak_day r = d \<and> user_id r = uid)) (results ?db1))
        = filter (\<lambda>r. streak_day r = d
                \<and> list_ex (\<lambda>u. u_id u = user_id r \<and> username u = name) (users ?db1))
              (results ?db1)"
    using no by (auto intro!: filter_cong simp: )
  then show ?thesis
    using s no r1 ex
    by (simp add: apply_result_def day_results_def insert_or_replace_result_def Let_def)
qed

lemma day_results_foldl:
  assumes "users_ok db" and "name \<in> p_username ` set rs"
  shows "\<exists>row. day_results (foldl (apply_result now d) db rs) d name = [row]
           \<and> score row = p_score (last (filter (\<lambda>r. p_username r = name) rs))
           \<and> is_winner row = p_is_winner (last (filter (\<lambda>r. p_username r = name) rs))"
  using assms(2)
proof (induction rs rule: rev_induct)
  case Nil
  then show ?case by simp
next
  case (snoc x xs)
  have ok: "users_ok (foldl (apply_result now d) db xs)"
    using users_ok_foldl [OF assms(1)] .
  show ?case
  proof (cases "p_username x = name")
    case True
    from day_results_apply_same [OF ok True, of now d] show ?thesis using True by simp
  next
    case False
    with snoc.prems have "name \<in> p_username ` set xs" by auto
    from snoc.IH [OF this] day_results_apply_other [OF ok False, of now d]
    show ?thesis using False by simp
  qed
qed

lemma streaks_apply_result [simp]: "streaks (apply_result now d db r) = streaks db"
  by (simp add: apply_result_def insert_or_ignore_user_def insert_or_replace_result_def Let_def
      split: option.splits)

lemma streaks_foldl [simp]: "streaks (foldl (apply_result now d) db rs) = streaks db"
  by (induction rs arbitrary: db) simp_all

lemma users_ok_insert_streak [simp]:
  "users_ok (insert_or_ignore_streak now d db) = users_ok db"
  by (simp add: insert_or_ignore_streak_def Let_def users_ok_def)

text \<open>
  Claim C1. Ingesting a message stores, for every user name of the message, exactly one
  result for that day and user, with the score and the winner flag of the last result
  the message has for that name; a result stored before for that day and user is
  replaced, and the call does not raise. In the example Alice has the score 3 for day 5
  and the message gives her X.
\<close>

theorem ingest_last_write_wins:
  assumes "users_ok db" and "parse_message message = Inr p" and "bindable (p_day p)"
    and "list_all (\<lambda>r. encodable (p_username r)) (p_results p)"
    and "name \<in> p_username ` set (p_results p)"
  shows "\<exists>s db' row.
           add_streak_data (\<lambda>k. False) now message db = (Inr s, db')
           \<and> day_results db' (p_day p) name = [row]
           \<and> score row = p_score (last (filter (\<lambda>r. p_username r = name) (p_results p)))
           \<and> is_winner row
               = p_is_winner (last (filter (\<lambda>r. p_username r = name) (p_results p)))"
proof -
  have "users_ok (insert_or_ignore_streak now (p_day p) db)" using assms(1) by simp
  from day_results_foldl [OF this assms(5), of now "p_day p"]
  show ?thesis
    unfolding add_streak_data_no_fault [OF assms(2,3,4)] ingest_def by blast
qed

lemma parse_alice_x:
  "parse_message (lit ''5 day streak X/6: @Alice'')
     = Inr \<lparr>p_day = 5, p_results = [\<lparr>p_username = lit ''Alice'', p_score = lit ''X'',
                                     p_is_winner = False\<rparr>]\<rparr>"
  by (simp add: text_eval parse_eval)

theorem ingest_last_write_wins_witness:
  "day_results day5_db 5 (lit ''Alice'')
     = [\<lparr>r_id = 1, streak_day = 5, user_id = 1, score = lit ''3'', is_winner = False\<rparr>]
   \<and> (\<exists>s db'. add_streak_data (\<lambda>k. False) 9 (lit ''5 day streak X/6: @Alice'') day5_db
                 = (Inr s, db')
        \<and> day_results db' 5 (lit ''Alice'')
           = [\<lparr>r_id = 2, streak_day = 5, user_id = 1, score = lit ''X'', is_winner = False\<rparr>])"
proof -
  have ok: "users_ok day5_db" by (simp add: users_ok_def day5_db_def)
  have b: "bindable (p_day \<lparr>p_day = 5, p_results = [\<lparr>p_username = lit ''Alice'',
              p_score = lit ''X'', p_is_winner = False\<rparr>]\<rparr>)"
    by (simp add: bindable_def)
  have c: "list_all (\<lambda>r. encodable (p_username r)) (p_results \<lparr>p_day = 5, p_results =
              [\<lparr>p_username = lit ''Alice'', p_score = lit ''X'', p_is_winner = False\<rparr>]\<rparr>)"
    by (simp add: encodable_def lit_def)
  have n: "lit ''Alice'' \<in> p_username ` set (p_results \<lparr>p_day = 5, p_results =
              [\<lparr>p_username = lit ''Alice'', p_score = lit ''X'', p_is_winner = False\<rparr>]\<rparr>)"
    by simp
  have before: "day_results day5_db 5 (lit ''Alice'')
     = [\<lparr>r_id = 1, streak_day = 5, user_id = 1, score = lit ''3'', is_winner = False\<rparr>]"
    by (simp add: day_results_def day5_db_def)
  have after: "add_streak_data (\<lambda>k. False) 9 (lit ''5 day streak X/6: @Alice'') day5_db
      = (Inr \<lparr>s_day = 5, results_added = 1, users_in_day = [lit ''Alice'']\<rparr>,
         \<lparr>users = [\<lparr>u_id = 1, username = lit ''Alice'', first_seen = 0\<rparr>],
          streaks = [\<lparr>s_id = 1, day = 5, imported_at = 0\<rparr>],
          results = [\<lparr>r_id = 2, streak_day = 5, user_id = 1, score = lit ''X'',
                      is_winner = False\<rparr>],
          users_seq = 2, streaks_seq = 2, results_seq = 2\<rparr>)"
    by (simp add: text_eval parse_eval store_eval day5_db_def)
  show ?thesis
    using ingest_last_write_wins [OF ok parse_alice_x b c n, of 9] before after
    by (simp add: day_results_def)
qed

text \<open>
  Claim C3. Ingesting a message whose day is already stored does not raise, leaves the
  table \<open>streaks\<close> as it was (no second row, the stored row with its
  \<open>imported_at\<close> unchanged), and applies the results of the message: every user name
  of the message then has exactly one result for the day, with the score and the winner
  flag of the last result the message has for that name. In the example day 5 is
  ingested again: the score of Alice changes from 3 to 4 and Bob is added.
\<close>

theorem existing_day_kept:
  assumes "users_ok db" and "parse_message message = Inr p" and "bindable (p_day p)"
    and "list_all (\<lambda>r. encodable (p_username r)) (p_results p)"
    and "list_ex (\<lambda>s. day s = p_day p) (streaks db)"
  shows "\<exists>s db'.
           add_streak_data (\<lambda>k. False) now message db = (Inr s, db')
           \<and> streaks db' = streaks db
           \<and> (\<forall>r\<in>set (p_results p).
                 \<exists>row. day_results db' (p_day p) (p_username r) = [row]
                   \<and> score row
                       = p_score (last (filter (\<lambda>q. p_username q = p_username r)
                                          (p_results p)))
                   \<and> is_winner row
                       = p_is_winner (last (filter (\<lambda>q. p_username q = p_username r)
                                              (p_results p))))"
proof -
  let ?db1 = "insert_or_ignore_streak now (p_day p) db"
  have ok: "users_ok ?db1" using assms(1) by simp
  have s: "streaks ?db1 = streaks db"
    using assms(5) by (simp add: insert_or_ignore_streak_def Let_def)
  have "\<exists>row. day_results (ingest now p db) (p_day p) (p_username r) = [row]
          \<and> score row
              = p_score (last (filter (\<lambda>q. p_username q = p_username r) (p_results p)))
          \<and> is_winner row
              = p_is_winner (last (filter (\<lambda>q. p_username q = p_username r) (p_results p)))"
    if "r \<in> set (p_results p)" for r
  proof -
    from that have "p_username r \<in> p_username ` set (p_results p)" by simp
    from day_results_foldl [OF ok this, of now "p_day p"] show ?thesis
      by (simp add: ingest_def)
  qed
  then show ?thesis
    unfolding add_streak_data_no_fault [OF assms(2,3,4)] using s by (simp add: ingest_def)
qed

lemma parse_alice_bob_4:
  "parse_message (lit ''5 day streak 4/6: @Alice@Bob'')
     = Inr \<lparr>p_day = 5, p_results =
         [\<lparr>p_username = lit ''Alice'', p_score = lit ''4'', p_is_winner = False\<rparr>,
          \<lparr>p_username = lit ''Bob'', p_score = lit ''4'', p_is_winner = False\<rparr>]\<rparr>"
  by (simp add: text_eval parse_eval)

theorem existing_day_kept_witness:
  "list_ex (\<lambda>s. day s = 5) (streaks day5_db)
   \<and> day_results day5_db 5 (lit ''Alice'')
       = [\<lparr>r_id = 1, streak_day = 5, user_id = 1, score = lit ''3'', is_winner = False\<rparr>]
   \<and> (\<exists>s. add_streak_data (\<lambda>k. False) 7 (lit ''5 day streak 4/6: @Alice@Bob'') day5_db
             = (Inr s, day5_again_db))
   \<and> streaks day5_again_db = [\<lparr>s_id = 1, day = 5, imported_at = 0\<rparr>]
   \<and> streaks day5_again_db = streaks day5_db
   \<and> day_results day5_again_db 5 (lit ''Alice'')
       = [\<lparr>r_id = 2, streak_day = 5, user_id = 1, score = lit ''4'', is_winner = False\<rparr>]
   \<and> day_results day5_again_db 5 (lit ''Bob'')
       = [\<lparr>r_id = 3, streak_day = 5, user_id = 3, score = lit ''4'', is_winner = False\<rparr>]"
proof -
  let ?p = "\<lparr>p_day = 5, p_results =
         [\<lparr>p_username = lit ''Alice'', p_score = lit ''4'', p_is_winner = False\<rparr>,
          \<lparr>p_username = lit ''Bob'', p_score = lit ''4'', p_is_winner = False\<rparr>]\<rparr>"
  have ok: "users_ok day5_db" by (simp add: users_ok_def day5_db_def)
  have b: "bindable (p_day ?p)" by (simp add: bindable_def)
  have c: "list_all (\<lambda>r. encodable (p_username r)) (p_results ?p)"
    by (simp add: encodable_def lit_def)
  have d: "list_ex (\<lambda>s. day s = p_day ?p) (streaks day5_db)"
    by (simp add: day5_db_def)
  have e: "add_streak_data (\<lambda>k. False) 7 (lit ''5 day streak 4/6: @Alice@Bob'') day5_db
     = (Inr \<lparr>s_day = 5, results_added = 2, users_in_day = [lit ''Alice'', lit ''Bob'']\<rparr>,
        day5_again_db)"
    by (simp add: text_eval parse_eval store_eval day5_db_def day5_again_db_def)
  have r0: "day_results day5_db 5 (lit ''Alice'')
       = [\<lparr>r_id = 1, streak_day = 5, user_id = 1, score = lit ''3'', is_winner = False\<rparr>]"
    by (simp add: day_results_def day5_db_def lit_def)
  have r1: "day_results day5_again_db 5 (lit ''Alice'')
       = [\<lparr>r_id = 2, streak_day = 5, user_id = 1, score = lit ''4'', is_winner = False\<rparr>]"
    by (simp add: day_results_def day5_again_db_def lit_def)
  have r2: "day_results day5_again_db 5 (lit ''Bob'')
       = [\<lparr>r_id = 3, streak_day = 5, user_id = 3, score = lit ''4'', is_winner = False\<rparr>]"
    by (simp add: day_results_def day5_again_db_def lit_def)
  show ?thesis
    using existing_day_kept [OF ok parse_alice_bob_4 b c d, of 7] e r0 r1 r2 d
    by (simp add: day5_db_def day5_again_db_def)
qed

section \<open>Atomicity of the deletion of a day\<close>

lemma delete_day_try_cases:
  "(\<exists>e c. delete_day_try fault d (connect db) = (Inl e, c) \<and> db_file c = db)
   \<or> (\<exists>c. delete_day_try fault d (connect db) = (Inr (), c)
           \<and> db_file c = delete_streak d (delete_results d db))"
  by (simp add: delete_day_try_def execute_begin_def execute_write_def execute_commit_def
      commit_def connect_def view_def)

lemma execute_rollback_db_file: "db_file (snd (execute_rollback fault c)) = db_file c"
  by (simp add: execute_rollback_def rollback_def)

text \<open>
  Claim C9. \<open>delete_day\<close> leaves the store in one of two states, whatever the storage
  faults are: when it returns \<^verbatim>\<open>True\<close>, the results of the day and the row of the day
  are both gone and nothing else has changed; in every other case (\<^verbatim>\<open>False\<close>, or an
  exception of \<^verbatim>\<open>get_day_details\<close>) the store is as it was. In the example the second
  delete fails after the first one ran.
\<close>

theorem delete_day_atomic:
  "(fst (delete_day fault_details fault d confirm typed db) = Inr True
      \<longrightarrow> snd (delete_day fault_details fault d confirm typed db)
            = db\<lparr>results := filter (\<lambda>r. streak_day r \<noteq> d) (results db),
                  streaks := filter (\<lambda>s. day s \<noteq> d) (streaks db)\<rparr>)
   \<and> (fst (delete_day fault_details fault d confirm typed db) \<noteq> Inr True
      \<longrightarrow> snd (delete_day fault_details fault d confirm typed db) = db)"
proof -
  from delete_day_try_cases [of fault d db]
  have t: "(fst (case delete_day_try fault d (connect db) of
                  (Inr _, c) \<Rightarrow> (Inr True, close c)
                | (Inl e, c) \<Rightarrow> (Inr False :: error + bool, close (snd (execute_rollback fault c))))
             = Inr True
            \<longrightarrow> snd (case delete_day_try fault d (connect db) of
                  (Inr _, c) \<Rightarrow> (Inr True :: error + bool, close c)
                | (Inl e, c) \<Rightarrow> (Inr False, close (snd (execute_rollback fault c))))
               = delete_streak d (delete_results d db))
          \<and> (fst (case delete_day_try fault d (connect db) of
                  (Inr _, c) \<Rightarrow> (Inr True, close c)
                | (Inl e, c) \<Rightarrow> (Inr False :: error + bool, close (snd (execute_rollback fault c))))
             \<noteq> Inr True
            \<longrightarrow> snd (case delete_day_try fault d (connect db) of
                  (Inr _, c) \<Rightarrow> (Inr True :: error + bool, close c)
                | (Inl e, c) \<Rightarrow> (Inr False, close (snd (execute_rollback fault c))))
               = db)"
    by (auto simp: close_def execute_rollback_db_file)
  have e: "delete_streak d (delete_results d db)
        = db\<lparr>results := filter (\<lambda>r. streak_day r \<noteq> d) (results db),
              streaks := filter (\<lambda>s. day s \<noteq> d) (streaks db)\<rparr>"
    by (simp add: delete_streak_def delete_results_def)
  show ?thesis
    unfolding delete_day_def using t e
    by (auto split: sum.splits option.splits)
qed

theorem delete_day_atomic_witness:
  "delete_day (\<lambda>k. False) (\<lambda>k. False) 5 True [] day5_bob_db
     = (Inr True,
        \<lparr>users = [\<lparr>u_id = 1, username = lit ''Alice'', first_seen = 0\<rparr>,
                  \<lparr>u_id = 2, username = lit ''Bob'', first_seen = 7\<rparr>],
         streaks = [], results = [], users_seq = 2, streaks_seq = 2, results_seq = 2\<rparr>)
   \<and> delete_day (\<lambda>k. False) (\<lambda>k. k = 2) 5 True [] day5_bob_db = (Inr False, day5_bob_db)
   \<and> snd (delete_day (\<lambda>k. False) (\<lambda>k. False) 5 True [] day5_bob_db)
       = day5_bob_db\<lparr>results := filter (\<lambda>r. streak_day r \<noteq> 5) (results day5_bob_db),
                      streaks := filter (\<lambda>s. day s \<noteq> 5) (streaks day5_bob_db)\<rparr>"
proof -
  have a: "delete_day (\<lambda>k. False) (\<lambda>k. False) 5 True [] day5_bob_db
     = (Inr True,
        \<lparr>users = [\<lparr>u_id = 1, username = lit ''Alice'', first_seen = 0\<rparr>,
                  \<lparr>u_id = 2, username = lit ''Bob'', first_seen = 7\<rparr>],
         streaks = [], results = [], users_seq = 2, streaks_seq = 2, results_seq = 2\<rparr>)"
    by (simp add: delete_eval store_eval day5_bob_db_def)
  have b: "delete_day (\<lambda>k. False) (\<lambda>k. k = 2) 5 True [] day5_bob_db = (Inr False, day5_bob_db)"
    by (simp add: delete_eval store_eval day5_bob_db_def)
  show ?thesis
    using a b delete_day_atomic [of "\<lambda>k. False" "\<lambda>k. False" 5 True "[]" day5_bob_db]
    by simp
qed

section \<open>The first day marker\<close>

text \<open>
  \<open>marker_at message k\<close>: a day marker starts at position \<open>k\<close> of the text.
\<close>

definition marker_at :: "pystr \<Rightarrow> nat \<Rightarrow> bool" where
  "marker_at message k =
     (\<exists>ds post. drop k message = ds @ lit '' day streak'' @ post
        \<and> ds \<noteq> [] \<and> list_all is_digit ds)"

lemma marker_at_iff: "marker_at m k \<longleftrightarrow> match_streak (drop k m) \<noteq> None"
proof
  assume "marker_at m k"
  then obtain ds post where "drop k m = ds @ lit '' day streak'' @ post"
    "ds \<noteq> []" "list_all is_digit ds" unfolding marker_at_def by blast
  then show "match_streak (drop k m) \<noteq> None"
    using match_streak_digits [of ds post] by simp
next
  assume "match_streak (drop k m) \<noteq> None"
  then obtain ds where "match_streak (drop k m) = Some ds" by blast
  from match_streak_SomeD [OF this] show "marker_at m k"
    unfolding marker_at_def by blast
qed

lemma space_not_digit: "is_space c \<Longrightarrow> \<not> is_digit c"
proof -
  have "\<forall>c\<in>set [9, 10, 11, 12, 13, 28, 29, 30, 31, 32, 133, 160, 5760, 8192, 8193, 8194,
               8195, 8196, 8197, 8198, 8199, 8200, 8201, 8202, 8232, 8233, 8239, 8287,
               12288]. \<not> is_digit c"
    unfolding list.set ball_simps by (simp add: is_digit_def nd_starts_def)
  then show "is_space c \<Longrightarrow> \<not> is_digit c"
    unfolding is_space_def by blast
qed

lemma split_no_sep: "sep \<notin> set s \<Longrightarrow> split sep s = [s]"
  by (induction s) auto

lemma no_double_underscore: "95 \<notin> set s \<Longrightarrow> \<not> double_underscore s"
  by (induction s rule: double_underscore.induct) auto

lemma py_int_digits:
  assumes "ds \<noteq> []" and "list_all is_digit ds"
  shows "py_int ds = (if int_max_str_digits < length ds then Inl (ValueError DigitLimit)
                      else Inr (int (digits_value ds)))"
proof -
  have d: "\<forall>c\<in>set ds. is_digit c" using assms(2) by (simp add: list_all_iff)
  have h: "is_digit (hd ds)" "is_digit (last ds)" using d assms(1) by auto
  have "\<not> is_int_space (hd ds)" using h(1) space_not_digit by (auto simp: is_int_space_def)
  then have t: "dropWhile is_int_space ds = ds" using assms(1) by (cases ds) auto
  have nd: "\<not> is_digit 43" "\<not> is_digit 45" "\<not> is_digit 95"
    by (simp_all add: is_digit_def nd_starts_def)
  have sign: "hd ds \<noteq> 43" "hd ds \<noteq> 45" "hd ds \<noteq> 95" "last ds \<noteq> 95"
    using h nd by auto
  have u: "95 \<notin> set ds" using d nd by auto
  have run: "takeWhile (\<lambda>c. is_digit c \<or> c = 95) ds = ds"
    "dropWhile (\<lambda>c. is_digit c \<or> c = 95) ds = []" "filter is_digit ds = ds"
    using d by (simp_all add: filter_id_conv)
  show ?thesis
    unfolding py_int_def Let_def t using sign assms(1) no_double_underscore [OF u]
    by (simp add: run)
qed

text \<open>
  Claim C4, as the code has it. The pattern is matched as written, with no flag: the
  words \<^verbatim>\<open> day streak\<close> are matched in lower case only. The number is a non-empty run
  of decimal digits, and of several markers the leftmost gives the day number: when no
  marker starts before the digits \<open>ds\<close>, the search returns \<open>ds\<close> and the day is their
  value (or \<^verbatim>\<open>int()\<close> refuses them for their length).
\<close>

theorem first_day_marker_is_parsed:
  assumes "message = pre @ ds @ lit '' day streak'' @ post"
    and "ds \<noteq> []" and "list_all is_digit ds"
    and "\<forall>k<length pre. \<not> marker_at message k"
  shows "search_streak message = Some ds
         \<and> parse_message message
             = (if int_max_str_digits < length ds then Inl (ValueError DigitLimit)
                else Inr \<lparr>p_day = int (digits_value ds),
                          p_results = concat (map block_results (findall_score message))\<rparr>)"
proof -
  have "\<forall>k<length pre. match_streak (drop k (pre @ ds @ lit '' day streak'' @ post)) = None"
    using assms(4) unfolding marker_at_iff assms(1) by simp
  from search_streak_first [OF this]
  have "search_streak message = search_streak (ds @ lit '' day streak'' @ post)"
    by (simp add: assms(1))
  also have "\<dots> = Some ds"
    using match_streak_digits [OF assms(2,3), of post] assms(2) by (cases ds) auto
  finally have s: "search_streak message = Some ds" .
  show ?thesis
    using s py_int_digits [OF assms(2,3)] by (simp add: parse_message_def)
qed

theorem first_day_marker_witness:
  "lit ''W 42 day streak 7 day streak'' = lit ''W '' @ lit ''42'' @ lit '' day streak'' @ lit '' 7 day streak''
   \<and> list_all is_digit (lit ''42'')
   \<and> \<not> marker_at (lit ''W 42 day streak 7 day streak'') 0
   \<and> \<not> marker_at (lit ''W 42 day streak 7 day streak'') 1
   \<and> marker_at (lit ''W 42 day streak 7 day streak'') 2
   \<and> marker_at (lit ''W 42 day streak 7 day streak'') 16
   \<and> parse_message (lit ''W 42 day streak 7 day streak'') = Inr \<lparr>p_day = 42, p_results = []\<rparr>"
proof -
  have m: "lit ''W 42 day streak 7 day streak''
      = lit ''W '' @ lit ''42'' @ lit '' day streak'' @ lit '' 7 day streak''"
    by (simp add: lit_def)
  have n: "lit ''42'' \<noteq> []" by (simp add: lit_def)
  have d: "list_all is_digit (lit ''42'')" by (simp add: text_eval)
  have k0: "\<not> marker_at (lit ''W 42 day streak 7 day streak'') 0"
    and k1: "\<not> marker_at (lit ''W 42 day streak 7 day streak'') 1"
    and k2: "marker_at (lit ''W 42 day streak 7 day streak'') 2"
    and k16: "marker_at (lit ''W 42 day streak 7 day streak'') 16"
    unfolding marker_at_iff by (simp_all add: text_eval match_streak_def)
  have f: "\<forall>k<length (lit ''W ''). \<not> marker_at (lit ''W 42 day streak 7 day streak'') k"
  proof (intro allI impI)
    fix k assume "k < length (lit ''W '')"
    then have "k = 0 \<or> k = 1" by (auto simp: lit_def)
    then show "\<not> marker_at (lit ''W 42 day streak 7 day streak'') k" using k0 k1 by auto
  qed
  have v: "digits_value (lit ''42'') = 42" by (simp add: text_eval digits_value_def)
  have r: "findall_score (lit ''W 42 day streak 7 day streak'') = []"
    by (simp add: text_eval parse_eval)
  show ?thesis
    using first_day_marker_is_parsed [OF m n d f] m d k0 k1 k2 k16 v r
    by (simp add: int_max_str_digits_def lit_def)
qed

text \<open>
  The claim reads the word \<^verbatim>\<open>streak\<close> case-insensitively; the parser does not, and
  raises on a marker written in upper case.
\<close>

theorem upper_case_streak_counterexample:
  "parse_message (lit ''7 day STREAK 3/6: @Alice'') = Inl (ValueError NoStreakDay)"
  by (simp add: text_eval parse_eval)

section \<open>The crown\<close>

text \<open>
  Claim C6. The message of the claim holds the crown emoji U+1F451 before the first
  score marker. The pattern of the source file holds four other code points at the
  place of the crown, so the optional group takes no part in the match and the parser
  reports no winner: Alice and Bob come out with \<open>p_is_winner = False\<close>, where the
  claim has them as winners. Day, user names, scores and order are as the claim says.
\<close>

theorem parse_message_crown_example:
  "parse_message (lit ''42 day streak'' @ [10, 128081] @ lit '' 3/6: @Alice@Bob 5/6: @Carol'')
     = Inr \<lparr>p_day = 42, p_results =
         [\<lparr>p_username = lit ''Alice'', p_score = lit ''3'', p_is_winner = False\<rparr>,
          \<lparr>p_username = lit ''Bob'', p_score = lit ''3'', p_is_winner = False\<rparr>,
          \<lparr>p_username = lit ''Carol'', p_score = lit ''5'', p_is_winner = False\<rparr>]\<rparr>"
  by (simp add: text_eval parse_eval)

text \<open>
  With the four code points of the file in the text in place of the emoji, the block's
  users are winners.
\<close>

lemma parse_message_file_crown_example:
  "parse_message (lit ''42 day streak'' @ [10] @ crown @ lit '' 3/6: @Alice@Bob 5/6: @Carol'')
     = Inr \<lparr>p_day = 42, p_results =
         [\<lparr>p_username = lit ''Alice'', p_score = lit ''3'', p_is_winner = True\<rparr>,
          \<lparr>p_username = lit ''Bob'', p_score = lit ''3'', p_is_winner = True\<rparr>,
          \<lparr>p_username = lit ''Carol'', p_score = lit ''5'', p_is_winner = False\<rparr>]\<rparr>"
  by (simp add: text_eval parse_eval)

section \<open>Averages of scores\<close>

text \<open>
  A score token is one of \<^verbatim>\<open>1\<close> to \<^verbatim>\<open>6\<close> and \<^verbatim>\<open>X\<close>; \<open>guesses\<close> is the number a
  numeric token stands for, and \<open>counted_guesses\<close> counts \<^verbatim>\<open>X\<close> as 7.
\<close>

definition is_token :: "pystr \<Rightarrow> bool" where
  "is_token sc = (sc \<in> set [lit ''1'', lit ''2'', lit ''3'', lit ''4'', lit ''5'', lit ''6'',
                            lit ''X''])"

definition guesses :: "pystr \<Rightarrow> int" where
  "guesses sc = int (hd sc) - 48"

lemma py_int_tokens:
  "py_int (lit ''1'') = Inr 1" "py_int (lit ''2'') = Inr 2" "py_int (lit ''3'') = Inr 3"
  "py_int (lit ''4'') = Inr 4" "py_int (lit ''5'') = Inr 5" "py_int (lit ''6'') = Inr 6"
  by (simp_all add: text_eval py_int_def digits_value_def int_max_str_digits_def Let_def)

lemma guesses_tokens:
  "guesses (lit ''1'') = 1" "guesses (lit ''2'') = 2" "guesses (lit ''3'') = 3"
  "guesses (lit ''4'') = 4" "guesses (lit ''5'') = 5" "guesses (lit ''6'') = 6"
  by (simp_all add: guesses_def lit_def)

lemma py_int_token:
  assumes "is_token sc" and "sc \<noteq> lit ''X''"
  shows "py_int sc = Inr (guesses sc)"
proof -
  from assms have "sc = lit ''1'' \<or> sc = lit ''2'' \<or> sc = lit ''3'' \<or> sc = lit ''4''
      \<or> sc = lit ''5'' \<or> sc = lit ''6''"
    unfolding is_token_def by auto
  then show ?thesis
    using py_int_tokens guesses_tokens by (elim disjE) simp_all
qed

lemma map_raise_Inr:
  "\<forall>x\<in>set xs. f x = Inr (g x) \<Longrightarrow> map_raise f xs = Inr (map g xs)"
  by (induction xs) auto

lemma token_no_comma: "is_token s \<Longrightarrow> s \<noteq> [] \<and> 44 \<notin> set s"
  unfolding is_token_def by (auto simp: lit_def)

lemma split_append_sep:
  "44 \<notin> set s \<Longrightarrow> split 44 (s @ 44 # rest) = s # split 44 rest"
  by (induction s) auto

lemma split_join_tokens:
  "ss \<noteq> [] \<Longrightarrow> \<forall>s\<in>set ss. is_token s \<Longrightarrow>
     join (lit '','') ss \<noteq> [] \<and> split 44 (join (lit '','') ss) = ss"
proof (induction "lit '',''" ss rule: join.induct)
  case 1
  then show ?case by simp
next
  case (2 s)
  then show ?case using token_no_comma [of s] by (simp add: split_no_sep)
next
  case (3 s t ss)
  then have "split 44 (join (lit '','') (t # ss)) = t # ss" by auto
  moreover have "s \<noteq> []" "44 \<notin> set s" using 3 token_no_comma [of s] by auto
  moreover have "lit '','' = [44]" by (simp add: lit_def)
  ultimately show ?case by (simp add: split_append_sep)
qed

definition counted_guesses :: "pystr \<Rightarrow> int" where
  "counted_guesses sc = (if sc = lit ''X'' then 7 else guesses sc)"

lemma score_to_numeric_token:
  "is_token sc \<Longrightarrow> score_to_numeric sc = Inr (counted_guesses sc)"
  by (simp add: score_to_numeric_def counted_guesses_def py_int_token)

lemma show_day_stats_tokens:
  assumes "\<forall>r\<in>set rows. is_token (fst (snd r))"
  shows "show_day_stats rows
     = Inr \<lparr>total_players = length rows,
            successful_players = length (filter (\<lambda>r. fst (snd r) \<noteq> lit ''X'') rows),
            failed_players = length (filter (\<lambda>r. fst (snd r) = lit ''X'') rows),
            avg_score =
              (if filter (\<lambda>r. fst (snd r) \<noteq> lit ''X'') rows = [] then None
               else Some (of_int (sum_list (map (\<lambda>r. guesses (fst (snd r)))
                                      (filter (\<lambda>r. fst (snd r) \<noteq> lit ''X'') rows)))
                          / of_nat (length (filter (\<lambda>r. fst (snd r) \<noteq> lit ''X'') rows))))\<rparr>"
proof -
  let ?ok = "filter (\<lambda>r. fst (snd r) \<noteq> lit ''X'') rows"
  have "\<forall>sc\<in>set (map (\<lambda>r. fst (snd r)) ?ok). py_int sc = Inr (guesses sc)"
    using assms by (fastforce intro: py_int_token)
  from map_raise_Inr [OF this]
  have m: "map_raise py_int (map (\<lambda>r. fst (snd r)) ?ok)
           = Inr (map (\<lambda>r. guesses (fst (snd r))) ?ok)"
    by (simp add: comp_def)
  show ?thesis
    unfolding show_day_stats_def Let_def m by (simp add: comp_def)
qed

lemma all_time_row_tokens:
  assumes "ss \<noteq> []" and "\<forall>s\<in>set ss. is_token s"
  shows "all_time_row (name, uid, n, join (lit '','') ss)
     = Inr (name, \<lparr>ss_user_id = uid, games_played = n, scores = ss,
                   numeric_scores = map counted_guesses ss,
                   average_score = of_int (sum_list (map counted_guesses ss))
                                   / of_nat (length ss),
                   score_variance = (if 1 < length ss then variance (map counted_guesses ss)
                                     else 0)\<rparr>)"
proof -
  note sj = split_join_tokens [OF assms]
  have "\<forall>s\<in>set ss. score_to_numeric s = Inr (counted_guesses s)"
    using assms(2) by (simp add: score_to_numeric_token)
  from map_raise_Inr [OF this]
  have m: "map_raise score_to_numeric ss = Inr (map counted_guesses ss)" .
  show ?thesis
    using sj m assms(1) by (simp add: all_time_row_def Let_def mean_def)
qed

text \<open>
  Claim C7, as the code has it. On scores that are tokens, \<^verbatim>\<open>show_day_data\<close> averages
  the scores other than \<^verbatim>\<open>X\<close> only (no average when every score is \<^verbatim>\<open>X\<close>) and counts
  the \<^verbatim>\<open>X\<close> results apart as failed players; the per-user \<open>average_score\<close> of
  \<^verbatim>\<open>get_all_time_stats\<close> is the mean of all the user's scores with every \<^verbatim>\<open>X\<close> counted
  as 7, as \<^verbatim>\<open>score_to_numeric\<close> documents.
\<close>

theorem averages_as_computed:
  assumes "\<forall>r\<in>set rows. is_token (fst (snd r))"
    and "ss \<noteq> []" and "\<forall>s\<in>set ss. is_token s"
  shows "(\<exists>st. show_day_stats rows = Inr st
            \<and> failed_players st = length (filter (\<lambda>r. fst (snd r) = lit ''X'') rows)
            \<and> avg_score st =
                (if filter (\<lambda>r. fst (snd r) \<noteq> lit ''X'') rows = [] then None
                 else Some (of_int (sum_list (map (\<lambda>r. guesses (fst (snd r)))
                                        (filter (\<lambda>r. fst (snd r) \<noteq> lit ''X'') rows)))
                            / of_nat (length (filter (\<lambda>r. fst (snd r) \<noteq> lit ''X'') rows)))))
         \<and> (\<exists>st. all_time_row (name, uid, n, join (lit '','') ss) = Inr (name, st)
            \<and> average_score st
                = of_int (sum_list (map (\<lambda>s. if s = lit ''X'' then 7 else guesses s) ss))
                  / of_nat (length ss))"
  using show_day_stats_tokens [OF assms(1)] all_time_row_tokens [OF assms(2,3), of name uid n]
  by (simp add: counted_guesses_def [abs_def])

theorem averages_as_computed_witness:
  "show_day_stats [(lit ''Alice'', lit ''X'', False), (lit ''Bob'', lit ''3'', True),
                   (lit ''Carol'', lit ''4'', False)]
     = Inr \<lparr>total_players = 3, successful_players = 2, failed_players = 1,
            avg_score = Some (7 / 2)\<rparr>
   \<and> (\<exists>st. all_time_row (lit ''Alice'', 1, 2, join (lit '','') [lit ''X'', lit ''3''])
              = Inr (lit ''Alice'', st)
        \<and> average_score st = 5)"
proof -
  have r: "\<forall>r\<in>set [(lit ''Alice'', lit ''X'', False), (lit ''Bob'', lit ''3'', True),
                   (lit ''Carol'', lit ''4'', False)]. is_token (fst (snd r))"
    by (simp add: is_token_def)
  have n: "[lit ''X'', lit ''3''] \<noteq> []" by simp
  have t: "\<forall>s\<in>set [lit ''X'', lit ''3'']. is_token s" by (simp add: is_token_def)
  have e: "show_day_stats [(lit ''Alice'', lit ''X'', False), (lit ''Bob'', lit ''3'', True),
                   (lit ''Carol'', lit ''4'', False)]
     = Inr \<lparr>total_players = 3, successful_players = 2, failed_players = 1,
            avg_score = Some (7 / 2)\<rparr>"
    by (simp add: stats_eval text_eval py_int_def digits_value_def
      int_max_str_digits_def Let_def)
  have x: "lit ''3'' \<noteq> lit ''X''" by (simp add: lit_def)
  show ?thesis
    using averages_as_computed [OF r n t, of "lit ''Alice''" 1 2] e x
    by (simp add: guesses_tokens)
qed

text \<open>
  The claim has every average leave \<^verbatim>\<open>X\<close> out. For a user with the scores \<^verbatim>\<open>X\<close> and
  \<^verbatim>\<open>3\<close> the all-time average is 5, not 3.
\<close>

definition alice_x3_db :: database where
  "alice_x3_db =
     \<lparr>users = [\<lparr>u_id = 1, username = lit ''Alice'', first_seen = 0\<rparr>],
      streaks = [\<lparr>s_id = 1, day = 5, imported_at = 0\<rparr>, \<lparr>s_id = 2, day = 6, imported_at = 1\<rparr>],
      results = [\<lparr>r_id = 1, streak_day = 5, user_id = 1, score = lit ''X'',
                  is_winner = False\<rparr>,
                 \<lparr>r_id = 2, streak_day = 6, user_id = 1, score = lit ''3'',
                  is_winner = True\<rparr>],
      users_seq = 1, streaks_seq = 2, results_seq = 2\<rparr>"

theorem all_time_average_counterexample:
  "all_time_score_stats alice_x3_db
     = Inr [(lit ''Alice'',
             \<lparr>ss_user_id = 1, games_played = 2, scores = [lit ''3'', lit ''X''],
              numeric_scores = [3, 7], average_score = 5, score_variance = 8\<rparr>)]"
  by (simp add: stats_eval alice_x3_db_def text_eval py_int_def digits_value_def
      int_max_str_digits_def Let_def power2_eq_square)

section \<open>The consistency score\<close>

text \<open>
  The played days of a user are the days of the user's results. A break is a run of
  days that the user did not play between two played days: \<open>missed_days\<close> counts the
  days not played between the first and the last played day, \<open>breaks\<close> counts the
  played days, other than the last, whose next day was not played, and
  \<open>average_break\<close> is the mean length of a break, 0 when there is none.
\<close>

definition missed_days :: "int set \<Rightarrow> nat" where
  "missed_days S = card ({Min S..Max S} - S)"

definition breaks :: "int set \<Rightarrow> nat" where
  "breaks S = card {d \<in> S. d \<noteq> Max S \<and> d + 1 \<notin> S}"

definition average_break :: "int set \<Rightarrow> rat" where
  "average_break S = (if breaks S = 0 then 0 else of_nat (missed_days S) / of_nat (breaks S))"

definition played_days :: "database \<Rightarrow> user_row \<Rightarrow> int set" where
  "played_days db u = streak_day ` {r \<in> set (results db). user_id r = u_id u}"

lemma sorted_last_ge: "sorted (xs :: int list) \<Longrightarrow> x \<in> set xs \<Longrightarrow> x \<le> last xs"
  by (induction xs) (auto split: if_splits)

lemma gaps_sorted:
  "sorted ds \<Longrightarrow> ds \<noteq> [] \<Longrightarrow>
     sum_list (gaps ds) = int (card ({hd ds..last ds} - set ds))
     \<and> length (gaps ds) = card {d \<in> set ds. d \<noteq> last ds \<and> d + 1 \<notin> set ds}"
proof (induction ds rule: gaps.induct)
  case (1 a b ds)
  let ?S = "set (b # ds)" and ?L = "last (b # ds)"
  from "1.prems" have ab: "a \<le> b" and sb: "sorted (b # ds)" and lo: "\<forall>x\<in>?S. b \<le> x"
    by auto
  have hi: "\<forall>x\<in>?S. x \<le> ?L" using sorted_last_ge [OF sb] by blast
  have Lin: "?L \<in> ?S" by (rule last_in_set) simp
  have bL: "b \<le> ?L" using hi by simp
  have IH: "sum_list (gaps (b # ds)) = int (card ({b..?L} - ?S))"
    "length (gaps (b # ds)) = card {d \<in> ?S. d \<noteq> ?L \<and> d + 1 \<notin> ?S}"
    using "1.IH" sb by (cases "1 < b - a"; simp)+
  have s1: "{a..?L} - insert a ?S = {a<..<b} \<union> ({b..?L} - ?S)"
    using ab lo bL by auto
  have d1: "{a<..<b} \<inter> ({b..?L} - ?S) = {}" by auto
  have c1: "card ({a..?L} - insert a ?S) = nat (b - a - 1) + card ({b..?L} - ?S)"
    unfolding s1 using card_Un_disjoint [OF _ _ d1] by simp
  have s2: "{d \<in> insert a ?S. d \<noteq> ?L \<and> d + 1 \<notin> insert a ?S}
      = (if 1 < b - a then {a} else {}) \<union> {d \<in> ?S. d \<noteq> ?L \<and> d + 1 \<notin> ?S}"
  proof (cases "a = b")
    case True
    then show ?thesis by auto
  next
    case False
    with ab have lt: "a < b" by simp
    then have na: "a \<notin> ?S" "a \<noteq> ?L" using lo Lin by fastforce+
    have "a + 1 \<in> ?S \<longleftrightarrow> \<not> 1 < b - a"
    proof
      assume "a + 1 \<in> ?S"
      then have "b \<le> a + 1" using lo by blast
      then show "\<not> 1 < b - a" by simp
    next
      assume "\<not> 1 < b - a"
      then have "b = a + 1" using lt by simp
      then show "a + 1 \<in> ?S" by simp
    qed
    moreover have "d + 1 \<noteq> a" if "d \<in> ?S" for d using lo that lt by fastforce
    ultimately show ?thesis using na by auto
  qed
  have d2: "(if 1 < b - a then {a} else {}) \<inter> {d \<in> ?S. d \<noteq> ?L \<and> d + 1 \<notin> ?S} = {}"
    using lo by (auto split: if_splits)
  have c2: "card {d \<in> insert a ?S. d \<noteq> ?L \<and> d + 1 \<notin> insert a ?S}
      = (if 1 < b - a then 1 else 0) + card {d \<in> ?S. d \<noteq> ?L \<and> d + 1 \<notin> ?S}"
    unfolding s2 using card_Un_disjoint [OF _ _ d2] by simp
  show ?case
    using IH c1 c2 by simp
qed simp_all

lemma sorted_Min_Max:
  assumes "sorted (ds :: int list)" and "ds \<noteq> []"
  shows "Min (set ds) = hd ds" and "Max (set ds) = last ds"
proof -
  from assms obtain x xs where ds: "ds = x # xs" by (cases ds) auto
  with assms(1) have "\<forall>y\<in>set ds. x \<le> y" by auto
  then show "Min (set ds) = hd ds" using ds by (intro Min_eqI) auto
  show "Max (set ds) = last ds"
    using sorted_last_ge [OF assms(1)] assms(2) by (intro Max_eqI) auto
qed

lemma streak_info_of_sorted:
  assumes "sorted ds" and "ds \<noteq> []"
  shows "average_gap (streak_info_of ds) = average_break (set ds)"
    and "consistency_score (streak_info_of ds) = 1 / (1 + average_break (set ds))"
proof -
  note g = gaps_sorted [OF assms] and m = sorted_Min_Max [OF assms]
  have l: "length (gaps ds) = breaks (set ds)" using g by (simp add: breaks_def m)
  have s: "sum_list (gaps ds) = int (missed_days (set ds))"
    using g by (simp add: missed_days_def m)
  have e: "gaps ds \<noteq> [] \<longleftrightarrow> breaks (set ds) \<noteq> 0" using l by (metis length_0_conv)
  show a: "average_gap (streak_info_of ds) = average_break (set ds)"
    using e l s by (simp add: streak_info_of_def average_break_def mean_def Let_def)
  show "consistency_score (streak_info_of ds) = 1 / (1 + average_break (set ds))"
    using a by (simp add: streak_info_of_def Let_def)
qed

lemma streak_data_lookup:
  assumes "distinct (map fst rows)" and "(name, days) \<in> set rows" and "days \<noteq> []"
  shows "foldl (\<lambda>streak_data row.
              case row of (name, days) \<Rightarrow>
                if days = [] then streak_data
                else streak_data(name \<mapsto> streak_info_of days)) m rows name
         = Some (streak_info_of days)"
  using assms
proof (induction rows arbitrary: m rule: rev_induct)
  case Nil
  then show ?case by simp
next
  case (snoc row rows)
  obtain n d where row: "row = (n, d)" by (cases row)
  show ?case
  proof (cases "(name, days) \<in> set rows")
    case True
    with snoc.prems row have "n \<noteq> name" by (auto simp: rev_image_eqI)
    moreover have "distinct (map fst rows)" using snoc.prems by simp
    ultimately show ?thesis using snoc.IH [OF _ True snoc.prems(3)] row by simp
  next
    case False
    with snoc.prems have "row = (name, days)" by auto
    then show ?thesis using snoc.prems(3) by simp
  qed
qed

lemma consistency_lookup:
  assumes "users_ok db" and "u \<in> set (users db)"
    and "filter (\<lambda>r. user_id r = u_id u) (results db) \<noteq> []"
  shows "calculate_streak_consistency None None db (username u)
         = Some (streak_info_of
                  (sort (map streak_day (filter (\<lambda>r. user_id r = u_id u) (results db)))))"
proof -
  let ?rows = "consistency_query None None db"
  let ?days = "sort (map streak_day (filter (\<lambda>r. user_id r = u_id u) (results db)))"
  have r: "in_day_range None None r" for r by (simp add: in_day_range_def)
  have ex: "list_ex (\<lambda>r. user_id r = u_id u) (results db)"
    using assms(3) by (auto simp: list_ex_iff filter_empty_conv)
  have "map fst ?rows
        = map username (filter (\<lambda>u. list_ex (\<lambda>r. user_id r = u_id u) (results db)) (users db))"
    by (simp add: consistency_query_def r comp_def)
  then have d: "distinct (map fst ?rows)"
    using assms(1) by (simp add: users_ok_def distinct_map_filter)
  have i: "(username u, ?days) \<in> set ?rows"
    using assms(2) ex by (auto simp: consistency_query_def r)
  have n: "?days \<noteq> []" using assms(3) by (metis length_0_conv length_map length_sort)
  show ?thesis
    unfolding calculate_streak_consistency_def
    by (rule streak_data_lookup [OF d i n])
qed

text \<open>
  Claim C8. For every user with a stored result, \<^verbatim>\<open>_calculate_streak_consistency\<close>
  (over all days) has an entry under the user's name whose \<open>consistency_score\<close> is
  \<open>1 / (1 + g)\<close>, where \<open>g\<close>, the entry's \<open>average_gap\<close>, is the mean length of the
  breaks between the user's played days; \<open>g\<close> is 0 and the score is 1 when every
  played day but the last is followed by a played day, which covers a single played
  day. Two played days next to each other are no break and do not enter the mean: the
  days 1, 2 and 5 have one break of two days, so \<open>g = 2\<close> and the score is a third.
\<close>

theorem consistency_score_formula:
  assumes "users_ok db" and "u \<in> set (users db)"
    and "filter (\<lambda>r. user_id r = u_id u) (results db) \<noteq> []"
  shows "\<exists>info. calculate_streak_consistency None None db (username u) = Some info
           \<and> consistency_score info = 1 / (1 + average_break (played_days db u))
           \<and> average_gap info = average_break (played_days db u)
           \<and> ((\<forall>d\<in>played_days db u. d = Max (played_days db u) \<or> d + 1 \<in> played_days db u)
                \<longrightarrow> average_break (played_days db u) = 0 \<and> consistency_score info = 1)"
proof -
  let ?days = "sort (map streak_day (filter (\<lambda>r. user_id r = u_id u) (results db)))"
  have s: "sorted ?days" by simp
  have n: "?days \<noteq> []" using assms(3) by (metis length_0_conv length_map length_sort)
  have p: "set ?days = played_days db u" by (auto simp: played_days_def)
  note I = streak_info_of_sorted [OF s n, unfolded p]
  have z: "average_break (played_days db u) = 0"
    if "\<forall>d\<in>played_days db u. d = Max (played_days db u) \<or> d + 1 \<in> played_days db u"
  proof -
    from that have "{d \<in> played_days db u. d \<noteq> Max (played_days db u)
                      \<and> d + 1 \<notin> played_days db u} = {}" by auto
    then have "breaks (played_days db u) = 0" unfolding breaks_def by (simp only: card.empty)
    then show ?thesis by (simp add: average_break_def)
  qed
  show ?thesis
    using consistency_lookup [OF assms] I z by auto
qed

definition alice_125_db :: database where
  "alice_125_db =
     \<lparr>users = [\<lparr>u_id = 1, username = lit ''Alice'', first_seen = 0\<rparr>],
      streaks = [\<lparr>s_id = 1, day = 1, imported_at = 0\<rparr>, \<lparr>s_id = 2, day = 2, imported_at = 0\<rparr>,
                 \<lparr>s_id = 3, day = 5, imported_at = 0\<rparr>],
      results = [\<lparr>r_id = 1, streak_day = 5, user_id = 1, score = lit ''3'', is_winner = False\<rparr>,
                 \<lparr>r_id = 2, streak_day = 1, user_id = 1, score = lit ''4'', is_winner = False\<rparr>,
                 \<lparr>r_id = 3, streak_day = 2, user_id = 1, score = lit ''X'', is_winner = False\<rparr>],
      users_seq = 1, streaks_seq = 3, results_seq = 3\<rparr>"

theorem consistency_score_witness:
  "calculate_streak_consistency None None alice_125_db (lit ''Alice'')
     = Some \<lparr>longest_streak = 2, consistency_score = 1 / 3, total_gaps = 1, average_gap = 2\<rparr>
   \<and> average_break (played_days alice_125_db \<lparr>u_id = 1, username = lit ''Alice'', first_seen = 0\<rparr>)
       = 2"
proof -
  let ?u = "\<lparr>u_id = 1, username = lit ''Alice'', first_seen = 0\<rparr>"
  have ok: "users_ok alice_125_db" by (simp add: users_ok_def alice_125_db_def)
  have u: "?u \<in> set (users alice_125_db)" by (simp add: alice_125_db_def)
  have r: "filter (\<lambda>r. user_id r = u_id ?u) (results alice_125_db) \<noteq> []"
    by (simp add: alice_125_db_def)
  have e: "calculate_streak_consistency None None alice_125_db (lit ''Alice'')
     = Some \<lparr>longest_streak = 2, consistency_score = 1 / 3, total_gaps = 1, average_gap = 2\<rparr>"
    by (simp add: consistency_eval alice_125_db_def)
  show ?thesis
    using consistency_score_formula [OF ok u r] e by auto
qed

end
